theory Spec2Isabelle
  imports Main "HOL-Library.Word"
begin

section \<open>Severity levels (level.go) and the priority table (handler.go)\<close>

text \<open>
  A \<^verbatim>\<open>slog.Level\<close> is a Go \<^verbatim>\<open>int\<close>: a signed 64-bit integer on the
  platforms the journal runs on. It is a \<open>64 word\<close> here, read with \<open>sint\<close>, so
  that the subtraction in \<^verbatim>\<open>Handle\<close> wraps around as Go's does.
  \<^verbatim>\<open>slog\<close> fixes Debug = -4, Info = 0, Warn = 4 and Error = 8.
\<close>

type_synonym Level = "64 word"

definition LevelDebug :: Level where "LevelDebug = - 4"
definition LevelInfo :: Level where "LevelInfo = 0"
definition LevelNotice :: Level where "LevelNotice = LevelInfo + 2"
definition LevelWarn :: Level where "LevelWarn = 4"
definition LevelError :: Level where "LevelError = 8"
definition LevelCrit :: Level where "LevelCrit = LevelError + 4"
definition LevelAlert :: Level where "LevelAlert = LevelError + 8"

text \<open>The largest level a Go \<^verbatim>\<open>int\<close> holds (\<^verbatim>\<open>math.MaxInt64\<close>).\<close>

definition MaxLevel :: Level where "MaxLevel = 0x7FFFFFFFFFFFFFFF"

text \<open>
  The eight entry prefixes: the \<^verbatim>\<open>PRIORITY\<close> field, the name of the
  \<^verbatim>\<open>MESSAGE\<close> field and the eight zero bytes reserved for its length.
\<close>

definition messageHeader :: string where
  "messageHeader = [CHR 0x0A] @ ''MESSAGE'' @ [CHR 0x0A] @ replicate 8 (CHR 0x00)"

definition prefixEmerg :: string where "prefixEmerg = ''PRIORITY=0'' @ messageHeader"
definition prefixAlert :: string where "prefixAlert = ''PRIORITY=1'' @ messageHeader"
definition prefixCrit :: string where "prefixCrit = ''PRIORITY=2'' @ messageHeader"
definition prefixErr :: string where "prefixErr = ''PRIORITY=3'' @ messageHeader"
definition prefixWarning :: string where "prefixWarning = ''PRIORITY=4'' @ messageHeader"
definition prefixNotice :: string where "prefixNotice = ''PRIORITY=5'' @ messageHeader"
definition prefixInfo :: string where "prefixInfo = ''PRIORITY=6'' @ messageHeader"
definition prefixDebug :: string where "prefixDebug = ''PRIORITY=7'' @ messageHeader"

definition priorityPrefixes :: "string list" where
  "priorityPrefixes =
     [prefixDebug,
      prefixInfo, prefixInfo, prefixInfo, prefixInfo,
      prefixNotice, prefixNotice, prefixNotice,
      prefixWarning,
      prefixErr, prefixErr, prefixErr, prefixErr,
      prefixCrit, prefixCrit, prefixCrit, prefixCrit]"

text \<open>
  The \<^verbatim>\<open>switch\<close> at the head of \<^verbatim>\<open>Handle\<close>:
  \<^verbatim>\<open>i := int(r.Level.Level() - slog.LevelDebug)\<close> is a 64-bit subtraction, and
  the three cases compare \<open>i\<close> as a signed integer.
\<close>

definition levelPrefix :: "Level \<Rightarrow> string" where
  "levelPrefix l =
     (let i = sint (l - LevelDebug) in
      if i < 0 then prefixDebug
      else if i < int (length priorityPrefixes) then priorityPrefixes ! nat i
      else prefixAlert)"

text \<open>
  The priority an entry declares: the digit of its leading \<^verbatim>\<open>PRIORITY=\<close>
  field, as the journal (and the test's parser) reads it.
\<close>

definition priorityOf :: "string \<Rightarrow> nat" where
  "priorityOf e = of_char (e ! 9) - 48"

section \<open>Standard-library text functions\<close>

text \<open>
  \<^verbatim>\<open>strconv.AppendInt(dst, i, 10)\<close>, \<^verbatim>\<open>strconv.AppendUint\<close> and the
  \<^verbatim>\<open>%d\<close> verb: decimal digits, with a minus sign for a negative number.
\<close>

fun digitsOf :: "nat \<Rightarrow> string" where
  "digitsOf n =
     (if n < 10 then [''0123456789'' ! n]
      else digitsOf (n div 10) @ [''0123456789'' ! (n mod 10)])"

declare digitsOf.simps [simp del]

definition FormatInt :: "int \<Rightarrow> string" where
  "FormatInt i = (if i < 0 then CHR ''-'' # digitsOf (nat (- i)) else digitsOf (nat i))"

text \<open>
  \<^verbatim>\<open>strconv.AppendQuote\<close>: the string between double quotes, with the quote and
  the backslash escaped by a backslash, the printable ASCII bytes kept, the control bytes
  written as \<^verbatim>\<open>\a \b \f \n \r \t \v\<close> or as \<^verbatim>\<open>\x\<close> and two hexadecimal
  digits. For a byte from 0x80 on, Go decodes UTF-8 and consults the Unicode tables; the
  model keeps such a byte as it is, which is what Go does with every printable rune.
\<close>

definition quoteChar :: char where "quoteChar = CHR 0x22"
definition backslash :: char where "backslash = CHR 0x5C"

definition escapeByte :: "char \<Rightarrow> string" where
  "escapeByte c =
     (let n = (of_char c :: nat) in
      if c = quoteChar \<or> c = backslash then [backslash, c]
      else if (32 \<le> n \<and> n < 127) \<or> 128 \<le> n then [c]
      else if n = 7 then [backslash, CHR ''a'']
      else if n = 8 then [backslash, CHR ''b'']
      else if n = 12 then [backslash, CHR ''f'']
      else if n = 10 then [backslash, CHR ''n'']
      else if n = 13 then [backslash, CHR ''r'']
      else if n = 9 then [backslash, CHR ''t'']
      else if n = 11 then [backslash, CHR ''v'']
      else [backslash, CHR ''x'',
            ''0123456789abcdef'' ! (n div 16), ''0123456789abcdef'' ! (n mod 16)])"

definition Quote :: "string \<Rightarrow> string" where
  "Quote s = quoteChar # concat (map escapeByte s) @ [quoteChar]"

text \<open>
  \<^verbatim>\<open>binary.LittleEndian.PutUint64(b[off:], v)\<close>: the eight bytes of \<open>v\<close>, lowest
  first, written over \<open>b\<close> from \<open>off\<close> on. Go panics (here \<open>None\<close>) when fewer than
  eight bytes of \<open>b\<close> are left at \<open>off\<close>. \<^verbatim>\<open>uint64(n)\<close> of a length is
  \<open>n mod 2 ^ 64\<close>. \<open>Uint64\<close> reads eight such bytes back, as the test's parser does.
\<close>

fun leBytes :: "nat \<Rightarrow> nat \<Rightarrow> string" where
  "leBytes 0 v = []"
| "leBytes (Suc k) v = char_of (v mod 256) # leBytes k (v div 256)"

fun leValue :: "string \<Rightarrow> nat" where
  "leValue [] = 0"
| "leValue (c # cs) = of_char c + 256 * leValue cs"

definition PutUint64 :: "string \<Rightarrow> nat \<Rightarrow> nat \<Rightarrow> string option" where
  "PutUint64 b off v =
     (if off + 8 \<le> length b
      then Some (take off b @ leBytes 8 (v mod 2 ^ 64) @ drop (off + 8) b)
      else None)"

definition Uint64 :: "string \<Rightarrow> nat" where
  "Uint64 b = leValue (take 8 b)"

section \<open>Attributes and values (the input contract of \<^verbatim>\<open>log/slog\<close>)\<close>

text \<open>
  A \<^verbatim>\<open>slog.Value\<close> by kind. A value whose text the standard library alone
  decides is held as that text: a float (\<^verbatim>\<open>strconv.AppendFloat\<close>), a duration
  (\<^verbatim>\<open>Duration.String\<close>), and an \<^verbatim>\<open>any\<close> that is neither \<^verbatim>\<open>nil\<close>
  nor a \<^verbatim>\<open>*slog.Source\<close> (\<^verbatim>\<open>fmt.Sprint\<close>). A time is held as its
  \<^verbatim>\<open>Format\<close> method, from the layout to the text. A \<^verbatim>\<open>LogValuer\<close> is held as
  the name of its dynamic type and the value its \<^verbatim>\<open>LogValue\<close> method returns.
  A \<^verbatim>\<open>*slog.Source\<close> is its file and line; the pointer is taken to be non-nil.
\<close>

datatype anyval = AnyNil | AnySource string int | AnyOther string

datatype Value =
    KindAny anyval
  | KindBool bool
  | KindDuration string
  | KindFloat64 string
  | KindInt64 int
  | KindString string
  | KindTime "string \<Rightarrow> string"
  | KindUint64 nat
  | KindGroup "(string \<times> Value) list"
  | KindLogValuer string Value

text \<open>A \<^verbatim>\<open>slog.Attr\<close>: its \<^verbatim>\<open>Key\<close> (\<open>fst\<close>) and its \<^verbatim>\<open>Value\<close> (\<open>snd\<close>).\<close>

type_synonym Attr = "string \<times> Value"

text \<open>
  \<^verbatim>\<open>Value.Resolve\<close>: \<^verbatim>\<open>LogValue\<close> is called while the value is a
  \<^verbatim>\<open>LogValuer\<close>, at most 100 times (\<^verbatim>\<open>maxLogValues\<close>); after the hundredth
  call the result is an error value that names the type of the original value. A
  \<^verbatim>\<open>LogValue\<close> that panics is outside the model.
\<close>

fun typeName :: "Value \<Rightarrow> string" where
  "typeName (KindLogValuer t w) = t"
| "typeName v = ''<nil>''"

fun resolveLoop :: "nat \<Rightarrow> string \<Rightarrow> Value \<Rightarrow> Value" where
  "resolveLoop 0 t v =
     KindAny (AnyOther (''LogValue called too many times on Value of type '' @ t))"
| "resolveLoop (Suc n) t (KindLogValuer t' w) = resolveLoop n t w"
| "resolveLoop (Suc n) t v = v"

definition Resolve :: "Value \<Rightarrow> Value" where
  "Resolve v = resolveLoop 100 (typeName v) v"

text \<open>
  \<^verbatim>\<open>Value.String\<close>. \<^verbatim>\<open>appendAttr\<close> calls it on a resolved value that is
  neither a group, a time nor a source, so the equations for a group, a time, a source and
  a \<^verbatim>\<open>LogValuer\<close> are never reached from it; they give the text of \<^verbatim>\<open>fmt\<close> as far
  as the model holds it.
\<close>

fun joinSpace :: "string list \<Rightarrow> string" where
  "joinSpace [] = []"
| "joinSpace [x] = x"
| "joinSpace (x # y # ys) = x @ '' '' @ joinSpace (y # ys)"

fun ValueString :: "Value \<Rightarrow> string" where
  "ValueString (KindString s) = s"
| "ValueString (KindInt64 i) = FormatInt i"
| "ValueString (KindUint64 n) = digitsOf n"
| "ValueString (KindFloat64 t) = t"
| "ValueString (KindBool b) = (if b then ''true'' else ''false'')"
| "ValueString (KindDuration t) = t"
| "ValueString (KindTime f) = f ''2006-01-02 15:04:05.999999999 -0700 MST''"
| "ValueString (KindGroup as) =
     ''['' @ joinSpace (map (\<lambda>(k, v). k @ ''='' @ ValueString v) as) @ '']''"
| "ValueString (KindAny AnyNil) = ''<nil>''"
| "ValueString (KindAny (AnySource f l)) = ''&{'' @ f @ '' '' @ FormatInt l @ ''}''"
| "ValueString (KindAny (AnyOther t)) = t"
| "ValueString (KindLogValuer t v) = t"

text \<open>
  \<^verbatim>\<open>a.Equal(slog.Attr{})\<close>: the key is empty and the value is the zero
  \<^verbatim>\<open>Value\<close>, whose kind is \<^verbatim>\<open>KindAny\<close> and whose \<^verbatim>\<open>any\<close> is nil.
\<close>

fun isEmptyAttr :: "Attr \<Rightarrow> bool" where
  "isEmptyAttr (k, KindAny AnyNil) = (k = [])"
| "isEmptyAttr (k, v) = False"

section \<open>The handler and the attribute renderer (handler.go)\<close>

text \<open>
  Modelled from the spec: \<^verbatim>\<open>needsQuoting\<close>, which \<^verbatim>\<open>appendString\<close> calls and
  whose source is not among the files. The spec (4.1, rule 6) has a value quoted if and
  only if it contains whitespace, a control character or the quote character. On bytes:
  whitespace is the space and the bytes 9 to 13, a control character is a byte below 32
  or the byte 127.
\<close>

definition isSpace :: "char \<Rightarrow> bool" where
  "isSpace c = (c = CHR '' '' \<or> (9 \<le> (of_char c :: nat) \<and> (of_char c :: nat) \<le> 13))"

definition isControl :: "char \<Rightarrow> bool" where
  "isControl c = ((of_char c :: nat) < 32 \<or> (of_char c :: nat) = 127)"

definition needsQuoting :: "string \<Rightarrow> bool" where
  "needsQuoting s = list_ex (\<lambda>c. isSpace c \<or> isControl c \<or> c = quoteChar) s"

text \<open>
  Modelled from the spec: the \<^verbatim>\<open>buffer\<close> type (a \<^verbatim>\<open>[]byte\<close>) and its
  methods, whose source is not among the files; the spec (2) has it a growable byte
  buffer. \<^verbatim>\<open>WriteString\<close>, \<^verbatim>\<open>Write\<close> and \<^verbatim>\<open>WriteByte\<close> append, and
  \<^verbatim>\<open>newBuffer\<close> gives an empty buffer. This is the buffer as a value; the section on
  backing arrays below has the same buffer as a Go slice in a store.
\<close>

definition WriteString :: "string \<Rightarrow> string \<Rightarrow> string" where
  "WriteString b str = b @ str"

definition newBuffer :: string where
  "newBuffer = []"

text \<open>
  The \<^verbatim>\<open>Handler\<close> struct. \<open>level\<close> is the level the \<^verbatim>\<open>Leveler\<close> reports, or
  \<open>None\<close> for a nil \<^verbatim>\<open>Leveler\<close>; \<open>sock\<close> is the descriptor of the socket and
  \<open>addr\<close> the name of the destination address. The types \<open>'b\<close> and \<open>'g\<close> are
  those of the two slices: in a \<open>handler\<close> they are the sequences the slices hold; the
  section on backing arrays below has them as Go slices in a store.
\<close>

record ('b, 'g) Handler =
  level :: "Level option"
  preformattedAttrs :: 'b
  groupPrefix :: string
  groups :: 'g
  nOpenGroups :: nat
  sock :: nat
  addr :: string
  timeFormat :: string
  msgPrefix :: string

type_synonym handler = "(string, string list) Handler"

text \<open>
  \<^verbatim>\<open>handleState\<close>. The type \<open>'b\<close> of \<open>buf\<close> is the buffer written to, and every
  function that writes takes the write operation \<open>wr\<close> of that buffer as its first
  argument: \<open>wr b str\<close> is \<open>b\<close> after \<^verbatim>\<open>b.WriteString(str)\<close>. \<open>h\<close> holds
  the fields of the handler as the state reads them through its pointer.
\<close>

record 'b handleState =
  h :: handler
  buf :: 'b
  freeBuf :: bool
  sep :: string
  prefix :: string

definition newHandleState :: "handler \<Rightarrow> 'b \<Rightarrow> bool \<Rightarrow> string \<Rightarrow> 'b handleState" where
  "newHandleState hdl b fb sp =
     \<lparr>h = hdl, buf = b, freeBuf = fb, sep = sp, prefix = newBuffer\<rparr>"

definition keyComponentSep :: char where
  "keyComponentSep = CHR ''.''"

definition openGroup :: "'b handleState \<Rightarrow> string \<Rightarrow> 'b handleState" where
  "openGroup s name = s\<lparr>prefix := prefix s @ name @ [keyComponentSep]\<rparr>"

text \<open>
  \<^verbatim>\<open>closeGroup\<close> cuts the name and the separator off the end of the prefix. Go
  would panic on a negative length; by \<open>appendAttrs_frame\<close> below the children of a
  group leave the prefix as \<^verbatim>\<open>openGroup\<close> made it, so that it ends with the name and
  the separator here.
\<close>

definition closeGroup :: "'b handleState \<Rightarrow> string \<Rightarrow> 'b handleState" where
  "closeGroup s name =
     s\<lparr>prefix := take (length (prefix s) - length name - 1) (prefix s), sep := '' ''\<rparr>"

text \<open>
  \<^verbatim>\<open>openGroups\<close> ranges over \<^verbatim>\<open>s.h.groups[s.h.nOpenGroups:]\<close>, which panics
  (\<open>None\<close>) when \<^verbatim>\<open>nOpenGroups\<close> exceeds the length of the slice.
\<close>

definition openGroups :: "'b handleState \<Rightarrow> 'b handleState option" where
  "openGroups s =
     (if nOpenGroups (h s) \<le> length (groups (h s))
      then Some (fold (\<lambda>n st. openGroup st n) (drop (nOpenGroups (h s)) (groups (h s))) s)
      else None)"

definition appendString :: "('b \<Rightarrow> string \<Rightarrow> 'b) \<Rightarrow> 'b handleState \<Rightarrow> string \<Rightarrow> 'b handleState" where
  "appendString wr s str =
     (if needsQuoting str then s\<lparr>buf := wr (buf s) (Quote str)\<rparr>
      else s\<lparr>buf := wr (buf s) str\<rparr>)"

definition appendKey :: "('b \<Rightarrow> string \<Rightarrow> 'b) \<Rightarrow> 'b handleState \<Rightarrow> string \<Rightarrow> 'b handleState" where
  "appendKey wr s key =
     (let s1 = s\<lparr>buf := wr (buf s) (sep s)\<rparr>;
          s2 = (if length (prefix s1) > 0 then appendString wr s1 (prefix s1 @ key)
                else appendString wr s1 key);
          s3 = s2\<lparr>buf := wr (buf s2) ''=''\<rparr>
      in s3\<lparr>sep := '' ''\<rparr>)"

text \<open>
  The special cases of \<^verbatim>\<open>appendAttr\<close>: a \<^verbatim>\<open>*slog.Source\<close> becomes the string
  \<^verbatim>\<open>file:line\<close>, a time the string its \<^verbatim>\<open>Format\<close> gives for the handler's
  \<^verbatim>\<open>timeFormat\<close>.
\<close>

fun specialCases :: "string \<Rightarrow> Value \<Rightarrow> Value" where
  "specialCases tf (KindAny (AnySource f l)) = KindString (f @ '':'' @ FormatInt l)"
| "specialCases tf (KindTime t) = KindString (t tf)"
| "specialCases tf v = v"

function appendAttr :: "('b \<Rightarrow> string \<Rightarrow> 'b) \<Rightarrow> 'b handleState \<Rightarrow> Attr \<Rightarrow> 'b handleState" where
  "appendAttr wr s a =
     (let v = Resolve (snd a) in
      if isEmptyAttr (fst a, v) then s
      else (case specialCases (timeFormat (h s)) v of
          KindGroup attrs \<Rightarrow>
            if length attrs > 0 then
              (let s1 = (if fst a \<noteq> [] then openGroup s (fst a) else s);
                   s2 = fold (\<lambda>aa st. appendAttr wr st aa) attrs s1
               in if fst a \<noteq> [] then closeGroup s2 (fst a) else s2)
            else s
        | v' \<Rightarrow> appendString wr (appendKey wr s (fst a)) (ValueString v')))"
  by pat_completeness auto
termination
proof (relation "measure (\<lambda>(wr, s, a). size (snd a))")
  show "wf (measure (\<lambda>(wr, s, a). size (snd a)))" by simp
next
  fix wr :: "'b \<Rightarrow> string \<Rightarrow> 'b" and s st :: "'b handleState" and a aa :: Attr
    and v attrs
  assume v: "v = Resolve (snd a)"
    and g: "specialCases (timeFormat (h s)) v = KindGroup attrs"
    and mem: "aa \<in> set attrs"
  have loop: "size (resolveLoop n t w) \<le> size w" for n t w
    by (induction n t w rule: resolveLoop.induct) auto
  have res: "size (Resolve (snd a)) \<le> size (snd a)"
    by (simp add: Resolve_def loop)
  from g have "v = KindGroup attrs"
    by (cases "(timeFormat (h s), v)" rule: specialCases.cases) auto
  with v res have le: "size (KindGroup attrs) \<le> size (snd a)" by metis
  from mem have lt: "size (snd aa) < size (KindGroup attrs)"
    by (induction attrs) (auto simp: less_Suc_eq_le)
  from lt le have "size (snd aa) < size (snd a)" by (rule less_le_trans)
  then show "((wr, st, aa), (wr, s, a)) \<in> measure (\<lambda>(wr, s, a). size (snd a))"
    by simp
qed

declare appendAttr.simps [simp del]

text \<open>The loop \<^verbatim>\<open>for _, a := range as { state.appendAttr(a) }\<close>.\<close>

definition appendAttrs :: "('b \<Rightarrow> string \<Rightarrow> 'b) \<Rightarrow> 'b handleState \<Rightarrow> Attr list \<Rightarrow> 'b handleState" where
  "appendAttrs wr s as = fold (\<lambda>a st. appendAttr wr st a) as s"

section \<open>Deriving handlers (handler.go)\<close>

text \<open>
  \<^verbatim>\<open>slices.Clip\<close> drops the unused capacity of a slice and keeps its elements: on
  the sequence a slice holds it changes nothing.
\<close>

definition Clip :: "'a list \<Rightarrow> 'a list" where
  "Clip xs = xs"

definition clone :: "handler \<Rightarrow> handler" where
  "clone hdl = hdl\<lparr>preformattedAttrs := Clip (preformattedAttrs hdl), groups := Clip (groups hdl)\<rparr>"

definition ExtendPrefix :: "handler \<Rightarrow> string \<Rightarrow> handler" where
  "ExtendPrefix hdl str = (let h2 = clone hdl in h2\<lparr>msgPrefix := msgPrefix hdl @ str\<rparr>)"

text \<open>
  \<^verbatim>\<open>WithAttrs\<close>. The state's buffer is the clone's own \<^verbatim>\<open>preformattedAttrs\<close>,
  so what the state has written is the clone's field at the end. \<open>None\<close> is the panic of
  \<^verbatim>\<open>openGroups\<close>.
\<close>

definition WithAttrs :: "handler \<Rightarrow> Attr list \<Rightarrow> handler option" where
  "WithAttrs hdl as =
     (let h2 = clone hdl;
          state = newHandleState h2 (preformattedAttrs h2) False [];
          state = state\<lparr>prefix := prefix state @ groupPrefix hdl\<rparr>;
          state = (if length (preformattedAttrs h2) > 0 then state\<lparr>sep := '' ''\<rparr> else state)
      in case openGroups state of
           None \<Rightarrow> None
         | Some state \<Rightarrow>
             (let state = appendAttrs WriteString state as;
                  h2 = h2\<lparr>preformattedAttrs := buf state\<rparr>;
                  h2 = h2\<lparr>groupPrefix := prefix state\<rparr>
              in Some (h2\<lparr>nOpenGroups := length (groups h2)\<rparr>)))"

definition WithGroup :: "handler \<Rightarrow> string \<Rightarrow> handler" where
  "WithGroup hdl name = (let h2 = clone hdl in h2\<lparr>groups := groups h2 @ [name]\<rparr>)"

text \<open>
  Errors. \<^verbatim>\<open>errors.Is\<close> follows the chain of wrapped errors down to the
  \<^verbatim>\<open>syscall.Errno\<close>, if there is one.
\<close>

datatype errno = EMSGSIZE | ENOBUFS | OtherErrno nat

datatype error = Errno errno | Wrapped string error | OtherError string

fun errorsIs :: "error \<Rightarrow> errno \<Rightarrow> bool" where
  "errorsIs (Errno e) target = (e = target)"
| "errorsIs (Wrapped msg err) target = errorsIs err target"
| "errorsIs (OtherError msg) target = False"

text \<open>
  \<^verbatim>\<open>NewHandler\<close>. \<open>listen\<close> is what \<^verbatim>\<open>net.ListenUnixgram\<close> returns: an error
  or the socket. \<open>opts\<close> is \<open>None\<close> for a nil pointer.
\<close>

record HandlerOptions =
  Level :: "Level option"
  Prefix :: string
  TimeFormat :: string
  Socket :: string

definition defaultSocket :: string where
  "defaultSocket = ''/run/systemd/journal/socket''"

definition RFC3339Nano :: string where
  "RFC3339Nano = ''2006-01-02T15:04:05.999999999Z07:00''"

definition NewHandler :: "error + nat \<Rightarrow> HandlerOptions option \<Rightarrow> error + handler" where
  "NewHandler listen opts =
     (case listen of
        Inl err \<Rightarrow> Inl err
      | Inr sk \<Rightarrow>
          (let hdl = \<lparr>level = None, preformattedAttrs = [], groupPrefix = [], groups = [],
                      nOpenGroups = 0, sock = sk, addr = defaultSocket,
                      timeFormat = RFC3339Nano, msgPrefix = []\<rparr>
           in case opts of
                None \<Rightarrow> Inr hdl
              | Some opt \<Rightarrow>
                  (let hdl = hdl\<lparr>level := HandlerOptions.Level opt\<rparr>;
                       hdl = (if Socket opt \<noteq> [] then hdl\<lparr>addr := Socket opt\<rparr> else hdl);
                       hdl = (if TimeFormat opt \<noteq> [] then hdl\<lparr>timeFormat := TimeFormat opt\<rparr>
                              else hdl)
                   in Inr (hdl\<lparr>msgPrefix := Prefix opt\<rparr>))))"


section \<open>Handling a record (handler.go)\<close>

text \<open>
  A \<^verbatim>\<open>time.Time\<close> is its seconds since January 1 of year 1 and its nanoseconds;
  \<^verbatim>\<open>IsZero\<close> and \<^verbatim>\<open>Unix\<close> are the standard library's.
\<close>

record GoTime =
  sec :: int
  nsec :: nat

definition IsZero :: "GoTime \<Rightarrow> bool" where
  "IsZero t = (sec t = 0 \<and> nsec t = 0)"

definition Unix :: "GoTime \<Rightarrow> int" where
  "Unix t = sec t - 62135596800"

text \<open>A \<^verbatim>\<open>slog.Record\<close>; \<open>Attrs\<close> is the sequence \<^verbatim>\<open>r.Attrs\<close> ranges over.\<close>

record Record =
  Time :: GoTime
  Message :: string
  Level :: Level
  PC :: nat
  Attrs :: "Attr list"

text \<open>A \<^verbatim>\<open>runtime.Frame\<close>, as far as \<^verbatim>\<open>Handle\<close> reads it.\<close>

record Frame =
  File :: string
  Line :: int
  Function :: string

text \<open>
  What the operating system and the runtime decide: the frame of a program counter, the
  outcome of sending a datagram, of creating the file, of writing to it and of sending
  its descriptor, and the build (with or without descriptor passing). The calls a function
  makes are recorded as events.
\<close>

record Env =
  callersFrames :: "nat \<Rightarrow> Frame"
  sendResult :: "string \<Rightarrow> error option"
  createResult :: "error + nat"
  writeResult :: "nat \<Rightarrow> string \<Rightarrow> error option"
  sendRightsResult :: "nat \<Rightarrow> error option"
  LargeMessageSupport :: bool

datatype event =
    WriteMsgUnix nat string string "nat option"
  | CreateNonlinkedFile
  | FileWrite nat string
  | FileClose nat

text \<open>
  \<^verbatim>\<open>sendViaFileIfTooLarge\<close> of large\_yes.go (\<^verbatim>\<open>darwin || unix\<close>). The deferred
  \<^verbatim>\<open>f.Close()\<close> is the last event of every path on which the file exists.
\<close>

definition sendViaFileIfTooLarge_yes ::
    "Env \<Rightarrow> handler \<Rightarrow> error \<Rightarrow> string \<Rightarrow> error option \<times> event list" where
  "sendViaFileIfTooLarge_yes env hdl err b =
     (if \<not> (errorsIs err EMSGSIZE \<or> errorsIs err ENOBUFS) then (Some err, [])
      else case createResult env of
          Inl err \<Rightarrow> (Some err, [CreateNonlinkedFile])
        | Inr f \<Rightarrow>
            (case writeResult env f b of
               Some err \<Rightarrow> (Some err, [CreateNonlinkedFile, FileWrite f b, FileClose f])
             | None \<Rightarrow>
                 (case sendRightsResult env f of
                    Some err \<Rightarrow>
                      (Some err, [CreateNonlinkedFile, FileWrite f b,
                                  WriteMsgUnix (sock hdl) (addr hdl) [] (Some f), FileClose f])
                  | None \<Rightarrow>
                      (None, [CreateNonlinkedFile, FileWrite f b,
                              WriteMsgUnix (sock hdl) (addr hdl) [] (Some f), FileClose f]))))"

text \<open>\<^verbatim>\<open>sendViaFileIfTooLarge\<close> of large\_no.go (every other platform).\<close>

definition sendViaFileIfTooLarge_no ::
    "Env \<Rightarrow> handler \<Rightarrow> error \<Rightarrow> string \<Rightarrow> error option \<times> event list" where
  "sendViaFileIfTooLarge_no env hdl err b = (Some err, [])"

text \<open>The build tag chooses between the two files.\<close>

definition sendViaFileIfTooLarge ::
    "Env \<Rightarrow> handler \<Rightarrow> error \<Rightarrow> string \<Rightarrow> error option \<times> event list" where
  "sendViaFileIfTooLarge env hdl err b =
     (if LargeMessageSupport env then sendViaFileIfTooLarge_yes env hdl err b
      else sendViaFileIfTooLarge_no env hdl err b)"

text \<open>
  The lookup in \<^verbatim>\<open>suffixCache\<close> (lines 180 to 186 of \<^verbatim>\<open>Handle\<close>): the cached
  suffix, or the one formatted from the frame and stored.
\<close>

definition loadSuffix :: "Env \<Rightarrow> (nat \<rightharpoonup> string) \<Rightarrow> nat \<Rightarrow> string \<times> (nat \<rightharpoonup> string)" where
  "loadSuffix env cache pc =
     (case cache pc of
        Some x \<Rightarrow> (x, cache)
      | None \<Rightarrow>
          (let f = callersFrames env pc;
               suffix = [CHR 0x0A] @ ''CODE_FILE='' @ File f @ [CHR 0x0A] @
                        ''CODE_LINE='' @ FormatInt (Line f) @ [CHR 0x0A] @
                        ''CODE_FUNC='' @ Function f @ [CHR 0x0A]
           in (suffix, cache(pc \<mapsto> suffix))))"

definition appendNonBuiltIns ::
    "('b \<Rightarrow> string \<Rightarrow> 'b) \<Rightarrow> 'b handleState \<Rightarrow> Record \<Rightarrow> 'b handleState option" where
  "appendNonBuiltIns wr s r =
     (let s = (if length (preformattedAttrs (h s)) > 0
               then (let s = s\<lparr>buf := wr (buf s) (sep s)\<rparr>;
                         s = s\<lparr>buf := wr (buf s) (preformattedAttrs (h s))\<rparr>
                     in s\<lparr>sep := '' ''\<rparr>)
               else s);
          s = s\<lparr>prefix := prefix s @ groupPrefix (h s)\<rparr>
      in case openGroups s of
           None \<Rightarrow> None
         | Some s \<Rightarrow> Some (appendAttrs wr s (Attrs r)))"

text \<open>
  The entry \<^verbatim>\<open>Handle\<close> builds (lines 188 to 206) from the prefix of the level and
  the suffix of the call site. \<open>None\<close> is a panic: of \<^verbatim>\<open>openGroups\<close>, or of
  the slice \<^verbatim>\<open>b[messageOffset-8:]\<close> and \<^verbatim>\<open>PutUint64\<close>.
\<close>

definition encodeEntry :: "handler \<Rightarrow> Record \<Rightarrow> string \<Rightarrow> string \<Rightarrow> string option" where
  "encodeEntry hdl r pfx suffix =
     (let state = newHandleState hdl newBuffer True [];
          state = state\<lparr>buf := WriteString (buf state) pfx\<rparr>;
          messageOffset = length (buf state);
          state = state\<lparr>buf := WriteString (buf state) (msgPrefix hdl)\<rparr>;
          state = state\<lparr>buf := WriteString (buf state) (Message r)\<rparr>;
          state = state\<lparr>sep := '': ''\<rparr>
      in case appendNonBuiltIns WriteString state r of
           None \<Rightarrow> None
         | Some state \<Rightarrow>
             (let messageLen = length (buf state) - messageOffset;
                  state = state\<lparr>buf := WriteString (buf state) suffix\<rparr>;
                  state = (if \<not> IsZero (Time r)
                           then (let state = state\<lparr>buf := WriteString (buf state) ''SYSLOG_TIMESTAMP=''\<rparr>;
                                     state = state\<lparr>buf := WriteString (buf state) (FormatInt (Unix (Time r)))\<rparr>
                                 in state\<lparr>buf := WriteString (buf state) [CHR 0x0A]\<rparr>)
                           else state);
                  b = buf state
              in if messageOffset < 8 then None
                 else PutUint64 b (messageOffset - 8) messageLen))"

text \<open>
  \<^verbatim>\<open>Handle\<close>: the result (\<open>None\<close> for a nil error), the calls made, and the
  cache afterwards; the outer \<open>None\<close> is a panic.
\<close>

definition Handle ::
    "Env \<Rightarrow> (nat \<rightharpoonup> string) \<Rightarrow> handler \<Rightarrow> Record
      \<Rightarrow> (error option \<times> event list \<times> (nat \<rightharpoonup> string)) option" where
  "Handle env cache hdl r =
     (let pfx = levelPrefix (Level r);
          (suffix, cache') = loadSuffix env cache (PC r)
      in case encodeEntry hdl r pfx suffix of
           None \<Rightarrow> None
         | Some b \<Rightarrow>
             (case sendResult env b of
                Some err \<Rightarrow>
                  (let (res, evs) = sendViaFileIfTooLarge env hdl err b
                   in Some (res, WriteMsgUnix (sock hdl) (addr hdl) b None # evs, cache'))
              | None \<Rightarrow> Some (None, [WriteMsgUnix (sock hdl) (addr hdl) b None], cache')))"

section \<open>Slices and their backing arrays\<close>

text \<open>
  The handler's two slices as Go has them: a slice is a backing array, a length and a
  capacity, and several slices may share one array. A store holds the arrays by number;
  \<open>nxt\<close> is the number of the next array to be allocated. The slices of a handler
  start at the beginning of their array, so a slice carries no offset. \<open>elems\<close> is
  the sequence a slice holds.
\<close>

record 'a store =
  cells :: "nat \<Rightarrow> 'a list"
  nxt :: nat

record slice =
  arr :: nat
  len :: nat
  cap :: nat

definition nilSlice :: slice where
  "nilSlice = \<lparr>arr = 0, len = 0, cap = 0\<rparr>"

definition elems :: "'a store \<Rightarrow> slice \<Rightarrow> 'a list" where
  "elems m s = take (len s) (cells m (arr s))"

text \<open>\<^verbatim>\<open>slices.Clip(s)\<close> is \<^verbatim>\<open>s[:len(s):len(s)]\<close>: the same array, no spare capacity.\<close>

definition sliceClip :: "slice \<Rightarrow> slice" where
  "sliceClip s = s\<lparr>cap := len s\<rparr>"

text \<open>
  \<^verbatim>\<open>append(s, xs...)\<close>: within the capacity the elements are written into the
  array of \<open>s\<close>, behind its length; beyond it a new array is allocated, the elements of
  \<open>s\<close> are copied and the new ones follow. The capacity of the new array is the
  runtime's choice, given by \<open>grow\<close> and at least what is needed; the spare cells hold
  the zero value \<open>z\<close>.
\<close>

definition goAppend ::
    "(nat \<Rightarrow> nat \<Rightarrow> nat) \<Rightarrow> 'a \<Rightarrow> 'a store \<Rightarrow> slice \<Rightarrow> 'a list \<Rightarrow> 'a store \<times> slice" where
  "goAppend grow z m s xs =
     (let n = len s + length xs in
      if n \<le> cap s then
        (m\<lparr>cells := (cells m)(arr s := take (len s) (cells m (arr s)) @ xs @
                                         drop n (cells m (arr s)))\<rparr>,
         s\<lparr>len := n\<rparr>)
      else
        (let c = max n (grow (cap s) n); a = nxt m in
         (\<lparr>cells = (cells m)(a := take (len s) (cells m (arr s)) @ xs @ replicate (c - n) z),
           nxt = Suc a\<rparr>,
          \<lparr>arr = a, len = n, cap = c\<rparr>)))"

section \<open>Deriving handlers, on slices\<close>

text \<open>
  The handler with its slices in two stores, one of byte arrays and one of arrays of
  strings, and the derivations of handler.go on it. \<open>view\<close> reads the slices: it
  gives the handler of the sections above.
\<close>

type_synonym shandler = "(slice, slice) Handler"

definition view :: "char store \<Rightarrow> string store \<Rightarrow> shandler \<Rightarrow> handler" where
  "view bm sm hdl =
     \<lparr>level = level hdl, preformattedAttrs = elems bm (preformattedAttrs hdl),
      groupPrefix = groupPrefix hdl, groups = elems sm (groups hdl),
      nOpenGroups = nOpenGroups hdl, sock = sock hdl, addr = addr hdl,
      timeFormat = timeFormat hdl, msgPrefix = msgPrefix hdl\<rparr>"

text \<open>
  The buffer \<^verbatim>\<open>(*buffer)(&h2.preformattedAttrs)\<close>: a slice in the store of byte arrays;
  \<^verbatim>\<open>WriteString\<close> is \<^verbatim>\<open>append\<close>.
\<close>

definition bufferWrite ::
    "(nat \<Rightarrow> nat \<Rightarrow> nat) \<Rightarrow> char store \<times> slice \<Rightarrow> string \<Rightarrow> char store \<times> slice" where
  "bufferWrite grow b str = goAppend grow (CHR 0x00) (fst b) (snd b) str"

text \<open>
  \<^verbatim>\<open>clone\<close>, \<^verbatim>\<open>ExtendPrefix\<close>, \<^verbatim>\<open>WithAttrs\<close> and \<^verbatim>\<open>WithGroup\<close>
  as above, with the slices clipped and appended to in the store. The state of
  \<^verbatim>\<open>WithAttrs\<close> reads the fields of the clone as they are when it is made; the
  rendering that follows writes the clone's buffer and reads none of the slices.
\<close>

definition clone_store :: "shandler \<Rightarrow> shandler" where
  "clone_store hdl =
     hdl\<lparr>preformattedAttrs := sliceClip (preformattedAttrs hdl), groups := sliceClip (groups hdl)\<rparr>"

definition ExtendPrefix_store :: "shandler \<Rightarrow> string \<Rightarrow> shandler" where
  "ExtendPrefix_store hdl str = (let h2 = clone_store hdl in h2\<lparr>msgPrefix := msgPrefix hdl @ str\<rparr>)"

definition WithAttrs_store ::
    "(nat \<Rightarrow> nat \<Rightarrow> nat) \<Rightarrow> char store \<Rightarrow> string store \<Rightarrow> shandler \<Rightarrow> Attr list
      \<Rightarrow> (char store \<times> shandler) option" where
  "WithAttrs_store grow bm sm hdl as =
     (let h2 = clone_store hdl;
          state = newHandleState (view bm sm h2) (bm, preformattedAttrs h2) False [];
          state = state\<lparr>prefix := prefix state @ groupPrefix hdl\<rparr>;
          state = (if len (preformattedAttrs h2) > 0 then state\<lparr>sep := '' ''\<rparr> else state)
      in case openGroups state of
           None \<Rightarrow> None
         | Some state \<Rightarrow>
             (let state = appendAttrs (bufferWrite grow) state as;
                  h2 = h2\<lparr>preformattedAttrs := snd (buf state)\<rparr>;
                  h2 = h2\<lparr>groupPrefix := prefix state\<rparr>
              in Some (fst (buf state), h2\<lparr>nOpenGroups := len (groups h2)\<rparr>)))"

definition WithGroup_store ::
    "(nat \<Rightarrow> nat \<Rightarrow> nat) \<Rightarrow> string store \<Rightarrow> shandler \<Rightarrow> string \<Rightarrow> string store \<times> shandler" where
  "WithGroup_store grow sm hdl name =
     (let h2 = clone_store hdl;
          (sm', g) = goAppend grow [] sm (groups h2) [name]
      in (sm', h2\<lparr>groups := g\<rparr>))"

section \<open>Notions of the statements\<close>

text \<open>The text \<^verbatim>\<open>appendString\<close> writes for a string: quoted if it needs quoting.\<close>

definition escapedText :: "string \<Rightarrow> string" where
  "escapedText str = (if needsQuoting str then Quote str else str)"

text \<open>
  The key prefix of the groups of a handler that \<^verbatim>\<open>openGroups\<close> still has to open:
  each name followed by the separator.
\<close>

definition pendingPrefix :: "handler \<Rightarrow> string" where
  "pendingPrefix hdl =
     concat (map (\<lambda>n. n @ [keyComponentSep]) (drop (nOpenGroups hdl) (groups hdl)))"

text \<open>
  The last field of an entry, and the text of the attributes: what
  \<^verbatim>\<open>appendNonBuiltIns\<close> writes into an empty buffer with the separator
  \<^verbatim>\<open>": "\<close>. The payload of the message field is the message prefix, the message
  and that text.
\<close>

definition timestampField :: "Record \<Rightarrow> string" where
  "timestampField r =
     (if \<not> IsZero (Time r) then ''SYSLOG_TIMESTAMP='' @ FormatInt (Unix (Time r)) @ [CHR 0x0A]
      else [])"

definition attrsText :: "handler \<Rightarrow> Record \<Rightarrow> string" where
  "attrsText hdl r =
     (case appendNonBuiltIns WriteString (newHandleState hdl newBuffer True '': '') r of
        Some s \<Rightarrow> buf s
      | None \<Rightarrow> [])"

definition messagePayload :: "handler \<Rightarrow> Record \<Rightarrow> string" where
  "messagePayload hdl r = msgPrefix hdl @ Message r @ attrsText hdl r"

text \<open>
  The receiver's reading of the message field, after \<^verbatim>\<open>parseProtocolMessage\<close> of
  handler\_test.go: past the eleven bytes of the priority line the name \<^verbatim>\<open>MESSAGE\<close>
  stands on a line without \<^verbatim>\<open>=\<close>, so eight bytes of length follow, then that many
  bytes of value, then a newline. The result is the declared length and the value.
\<close>

definition readMessage :: "string \<Rightarrow> (nat \<times> string) option" where
  "readMessage e =
     (let body = drop 11 e in
      if take 8 body = ''MESSAGE'' @ [CHR 0x0A] \<and> 16 \<le> length body then
        (let size = Uint64 (drop 8 body); rest = drop 16 body in
         if size < length rest \<and> rest ! size = CHR 0x0A then Some (size, take size rest)
         else None)
      else None)"

text \<open>
  Every suffix \<^verbatim>\<open>Handle\<close> stores in the cache starts with a newline; a cache that
  started empty holds nothing else.
\<close>

definition cacheOK :: "(nat \<rightharpoonup> string) \<Rightarrow> bool" where
  "cacheOK cache = (\<forall>pc x. cache pc = Some x \<longrightarrow> x \<noteq> [] \<and> hd x = CHR 0x0A)"

text \<open>
  The fields of a \<^verbatim>\<open>Handler\<close> are not exported: a program gets a handler from
  \<^verbatim>\<open>NewHandler\<close> and from \<^verbatim>\<open>WithAttrs\<close>, \<^verbatim>\<open>WithGroup\<close> and
  \<^verbatim>\<open>ExtendPrefix\<close> on a handler it has.
\<close>

inductive reachable :: "handler \<Rightarrow> bool" where
  new: "NewHandler listen opts = Inr hdl \<Longrightarrow> reachable hdl"
| attrs: "reachable hdl \<Longrightarrow> WithAttrs hdl as = Some h2 \<Longrightarrow> reachable h2"
| group: "reachable hdl \<Longrightarrow> reachable (WithGroup hdl name)"
| extend: "reachable hdl \<Longrightarrow> reachable (ExtendPrefix hdl str)"

text \<open>
  Two buffers and their write operations, related by a function \<open>f\<close> on the buffers
  that satisfy \<open>I\<close>: writing to the one is writing to the other. The renderer then
  does the same to both; \<open>mapBuf\<close> applies \<open>f\<close> to the buffer of a state.
\<close>

definition mapBuf :: "('a \<Rightarrow> 'c) \<Rightarrow> 'a handleState \<Rightarrow> 'c handleState" where
  "mapBuf f s = \<lparr>h = h s, buf = f (buf s), freeBuf = freeBuf s, sep = sep s, prefix = prefix s\<rparr>"

definition simulates :: "('a \<Rightarrow> bool) \<Rightarrow> ('a \<Rightarrow> 'c) \<Rightarrow> ('a \<Rightarrow> string \<Rightarrow> 'a) \<Rightarrow> ('c \<Rightarrow> string \<Rightarrow> 'c) \<Rightarrow> bool" where
  "simulates I f wr1 wr2 = (\<forall>b x. I b \<longrightarrow> I (wr1 b x) \<and> f (wr1 b x) = wr2 (f b) x)"

text \<open>
  A slice of a store is well formed when its length is within its capacity, its capacity
  within its array, and its array allocated. A later store leaves an earlier one untouched
  when every array of the earlier one is as it was. A buffer being written is owned, with
  respect to an earlier store, when no write to it can reach an array of that store: it has
  no spare capacity, or its array is newer.
\<close>

definition wfSlice :: "'a store \<Rightarrow> slice \<Rightarrow> bool" where
  "wfSlice m s =
     (len s \<le> cap s \<and> cap s \<le> length (cells m (arr s)) \<and> (cap s = 0 \<or> arr s < nxt m))"

definition untouched :: "'a store \<Rightarrow> 'a store \<Rightarrow> bool" where
  "untouched m0 m = (nxt m0 \<le> nxt m \<and> (\<forall>i < nxt m0. cells m i = cells m0 i))"

definition owned :: "'a store \<Rightarrow> 'a store \<times> slice \<Rightarrow> bool" where
  "owned m0 b =
     (wfSlice (fst b) (snd b) \<and> untouched m0 (fst b) \<and>
      (cap (snd b) = len (snd b) \<or> nxt m0 \<le> arr (snd b)))"

text \<open>A handler is well formed in two stores when its two slices are.\<close>

definition wfHandler :: "char store \<Rightarrow> string store \<Rightarrow> shandler \<Rightarrow> bool" where
  "wfHandler bm sm hdl = (wfSlice bm (preformattedAttrs hdl) \<and> wfSlice sm (groups hdl))"

text \<open>The state \<^verbatim>\<open>WithAttrs\<close> has made when it starts to render the attributes.\<close>

definition attrsState :: "char store \<Rightarrow> string store \<Rightarrow> shandler \<Rightarrow> (char store \<times> slice) handleState" where
  "attrsState bm sm hdl =
     \<lparr>h = view bm sm hdl, buf = (bm, sliceClip (preformattedAttrs hdl)), freeBuf = False,
      sep = (if 0 < len (preformattedAttrs hdl) then '' '' else []),
      prefix = groupPrefix hdl @ pendingPrefix (view bm sm hdl)\<rparr>"

section \<open>Inputs of the examples\<close>

text \<open>
  A handler made with no options on socket 3, an environment in which every call succeeds,
  and the zero time.
\<close>

definition defaultHandler :: handler where
  "defaultHandler = \<lparr>level = None, preformattedAttrs = [], groupPrefix = [], groups = [],
      nOpenGroups = 0, sock = 3, addr = defaultSocket, timeFormat = RFC3339Nano, msgPrefix = []\<rparr>"

definition quietEnv :: Env where
  "quietEnv = \<lparr>callersFrames = (\<lambda>pc. \<lparr>File = ''main.go'', Line = 25, Function = ''main.main''\<rparr>),
      sendResult = (\<lambda>b. None), createResult = Inr 5, writeResult = (\<lambda>f b. None),
      sendRightsResult = (\<lambda>f. None), LargeMessageSupport = True\<rparr>"

definition zeroTime :: GoTime where
  "zeroTime = \<lparr>sec = 0, nsec = 0\<rparr>"

text \<open>A state with an empty buffer, no separator and no prefix.\<close>

definition emptyState :: "string handleState" where
  "emptyState = newHandleState defaultHandler newBuffer False []"

text \<open>
  A handler whose buffer \<^verbatim>\<open>p=0\<close> has five spare bytes in its array (the case in
  which an \<^verbatim>\<open>append\<close> without \<^verbatim>\<open>Clip\<close> would write into the parent's array), no
  groups, and a runtime that doubles capacities.
\<close>

definition spareStore :: "char store" where
  "spareStore = \<lparr>cells = (\<lambda>i. if i = 0 then ''p=0'' @ replicate 5 (CHR 0x00) else []), nxt = 1\<rparr>"

definition noGroups :: "string store" where
  "noGroups = \<lparr>cells = (\<lambda>i. []), nxt = 0\<rparr>"

definition spareHandler :: shandler where
  "spareHandler = \<lparr>level = None, preformattedAttrs = \<lparr>arr = 0, len = 3, cap = 8\<rparr>,
      groupPrefix = [], groups = nilSlice, nOpenGroups = 0, sock = 3, addr = defaultSocket,
      timeFormat = RFC3339Nano, msgPrefix = []\<rparr>"

definition doubling :: "nat \<Rightarrow> nat \<Rightarrow> nat" where
  "doubling c n = 2 * c"

text \<open>
  The handler \<^verbatim>\<open>NewHandler(nil).WithAttrs({p: 0}).WithGroup("g")\<close>: the buffer as
  above, the group list \<^verbatim>\<open>["g"]\<close> in an array of one string, the group not yet
  opened.
\<close>

definition groupStore :: "string store" where
  "groupStore = \<lparr>cells = (\<lambda>i. if i = 0 then [''g''] else []), nxt = 1\<rparr>"

definition groupHandler :: shandler where
  "groupHandler = spareHandler\<lparr>groups := \<lparr>arr = 0, len = 1, cap = 1\<rparr>\<rparr>"

section \<open>Facts about the priority table\<close>

lemma priorityOf_prefixes:
  "priorityOf prefixEmerg = 0" "priorityOf prefixAlert = 1" "priorityOf prefixCrit = 2"
  "priorityOf prefixErr = 3" "priorityOf prefixWarning = 4" "priorityOf prefixNotice = 5"
  "priorityOf prefixInfo = 6" "priorityOf prefixDebug = 7"
  by (simp_all add: priorityOf_def prefixEmerg_def prefixAlert_def prefixCrit_def prefixErr_def
      prefixWarning_def prefixNotice_def prefixInfo_def prefixDebug_def)

text \<open>The subtraction of \<^verbatim>\<open>LevelDebug\<close> adds 4 unless the level is one of the four largest.\<close>

lemma sint_sub_LevelDebug:
  assumes "sint (l::Level) \<le> 9223372036854775803"
  shows "sint (l - LevelDebug) = sint l + 4"
proof -
  have lo: "- (2 ^ 63) \<le> sint l" using sint_ge [of l] by simp
  have d: "sint LevelDebug = - 4" by (simp add: LevelDebug_def)
  have "sint (l - LevelDebug) = signed_take_bit 63 (sint l - sint LevelDebug)"
    by (simp add: sint_word_ariths)
  also have "\<dots> = signed_take_bit 63 (sint l + 4)" by (simp add: d)
  also have "\<dots> = sint l + 4"
    using assms lo by (simp add: signed_take_bit_int_eq_self)
  finally show ?thesis .
qed

lemma levelPrefix_below:
  assumes "sint l < sint LevelDebug"
  shows "levelPrefix l = prefixDebug"
proof -
  from assms have b: "sint l < - 4" by (simp add: LevelDebug_def)
  then have "sint (l - LevelDebug) = sint l + 4"
    by (intro sint_sub_LevelDebug) simp
  with b show ?thesis by (simp add: levelPrefix_def)
qed

lemma levelPrefix_above:
  assumes "sint LevelCrit < sint l" and "sint l \<le> sint MaxLevel - 4"
  shows "levelPrefix l = prefixAlert"
proof -
  from assms have b: "12 < sint l" "sint l \<le> 9223372036854775803"
    by (simp_all add: LevelCrit_def LevelError_def MaxLevel_def)
  then have "sint (l - LevelDebug) = sint l + 4"
    by (intro sint_sub_LevelDebug)
  with b show ?thesis by (simp add: levelPrefix_def priorityPrefixes_def)
qed

lemma levelPrefix_in_table:
  assumes "- 4 \<le> sint l" and "sint l \<le> 12"
  shows "levelPrefix l = priorityPrefixes ! nat (sint l + 4)"
proof -
  from assms have "sint (l - LevelDebug) = sint l + 4"
    by (intro sint_sub_LevelDebug) simp
  with assms show ?thesis by (simp add: levelPrefix_def priorityPrefixes_def)
qed

text \<open>
  The table itself, tier by tier: Debug gives 7, the levels up to Info 6, the three around
  Notice 5, Warn 4, the levels up to Error 3, the levels up to Crit 2.
\<close>

lemma levelPrefix_tiers:
  "levelPrefix LevelDebug = prefixDebug"
  "levelPrefix (LevelInfo - 3) = prefixInfo" "levelPrefix (LevelInfo - 2) = prefixInfo"
  "levelPrefix (LevelInfo - 1) = prefixInfo" "levelPrefix LevelInfo = prefixInfo"
  "levelPrefix (LevelInfo + 1) = prefixNotice" "levelPrefix LevelNotice = prefixNotice"
  "levelPrefix (LevelWarn - 1) = prefixNotice" "levelPrefix LevelWarn = prefixWarning"
  "levelPrefix (LevelError - 3) = prefixErr" "levelPrefix (LevelError - 2) = prefixErr"
  "levelPrefix (LevelError - 1) = prefixErr" "levelPrefix LevelError = prefixErr"
  "levelPrefix (LevelError + 1) = prefixCrit" "levelPrefix (LevelCrit - 2) = prefixCrit"
  "levelPrefix (LevelCrit - 1) = prefixCrit" "levelPrefix LevelCrit = prefixCrit"
  by (simp_all add: levelPrefix_def priorityPrefixes_def LevelDebug_def LevelInfo_def
      LevelNotice_def LevelWarn_def LevelError_def LevelCrit_def)

text \<open>
  Between two levels that are not among the four largest, the priority does not increase
  with the level.
\<close>

lemma levelPrefix_mono_in_range:
  assumes le: "sint l1 \<le> sint l2" and hi: "sint l2 \<le> sint MaxLevel - 4"
  shows "priorityOf (levelPrefix l2) \<le> priorityOf (levelPrefix l1)"
proof -
  have srt: "sorted_wrt (\<lambda>a b. b \<le> a) (map priorityOf priorityPrefixes)"
    by (simp add: priorityPrefixes_def priorityOf_prefixes)
  have len: "length priorityPrefixes = 17" by (simp add: priorityPrefixes_def)
  have "list_all (\<lambda>p. priorityOf p \<le> 7 \<and> 2 \<le> priorityOf p) priorityPrefixes"
    by (simp add: priorityPrefixes_def priorityOf_prefixes)
  then have tbl: "priorityOf (priorityPrefixes ! i) \<le> 7 \<and> 2 \<le> priorityOf (priorityPrefixes ! i)"
    if "i < 17" for i
    using that len by (simp add: list_all_length)
  consider (low) "sint l1 < - 4" | (high) "12 < sint l2" "- 4 \<le> sint l1"
    | (mid) "- 4 \<le> sint l1" "sint l2 \<le> 12"
    by linarith
  then show ?thesis
  proof cases
    case low
    then have p1: "priorityOf (levelPrefix l1) = 7"
      by (simp add: levelPrefix_below LevelDebug_def priorityOf_prefixes)
    show ?thesis
    proof (cases "sint l2 < - 4")
      case True
      then have "priorityOf (levelPrefix l2) = 7"
        by (simp add: levelPrefix_below LevelDebug_def priorityOf_prefixes)
      with p1 show ?thesis by simp
    next
      case False
      show ?thesis
      proof (cases "sint l2 \<le> 12")
        case True
        with False have "levelPrefix l2 = priorityPrefixes ! nat (sint l2 + 4)"
          by (intro levelPrefix_in_table) simp_all
        moreover have "nat (sint l2 + 4) < 17" using True by simp
        ultimately show ?thesis using tbl p1 by simp
      next
        case False
        with hi have "levelPrefix l2 = prefixAlert"
          by (intro levelPrefix_above) (simp_all add: LevelCrit_def LevelError_def)
        with p1 show ?thesis by (simp add: priorityOf_prefixes)
      qed
    qed
  next
    case high
    with hi have p2: "priorityOf (levelPrefix l2) = 1"
      by (simp add: levelPrefix_above LevelCrit_def LevelError_def priorityOf_prefixes)
    show ?thesis
    proof (cases "sint l1 \<le> 12")
      case True
      with high have "levelPrefix l1 = priorityPrefixes ! nat (sint l1 + 4)"
        by (intro levelPrefix_in_table) simp_all
      moreover have "nat (sint l1 + 4) < 17" using True by simp
      ultimately show ?thesis using tbl [of "nat (sint l1 + 4)"] p2 by simp
    next
      case False
      with le hi have "levelPrefix l1 = prefixAlert"
        by (intro levelPrefix_above) (simp_all add: LevelCrit_def LevelError_def)
      with p2 show ?thesis by (simp add: priorityOf_prefixes)
    qed
  next
    case mid
    with le have e1: "levelPrefix l1 = priorityPrefixes ! nat (sint l1 + 4)"
      and e2: "levelPrefix l2 = priorityPrefixes ! nat (sint l2 + 4)"
      by (simp_all add: levelPrefix_in_table)
    show ?thesis
    proof (cases "sint l1 = sint l2")
      case True
      with e1 e2 show ?thesis by simp
    next
      case False
      with le mid have lt: "nat (sint l1 + 4) < nat (sint l2 + 4)"
        and l2: "nat (sint l2 + 4) < length (map priorityOf priorityPrefixes)"
        by (simp_all add: len)
      from less_trans [OF lt l2] have l1: "nat (sint l1 + 4) < length priorityPrefixes"
        by (simp only: length_map)
      from sorted_wrt_nth_less [OF srt lt l2]
      have "map priorityOf priorityPrefixes ! nat (sint l2 + 4)
          \<le> map priorityOf priorityPrefixes ! nat (sint l1 + 4)" .
      with l1 l2 show ?thesis by (simp add: e1 e2)
    qed
  qed
qed

text \<open>
  No level is given priority 0: the first case of the \<^verbatim>\<open>switch\<close> gives 7, the table
  holds no \<^verbatim>\<open>prefixEmerg\<close>, and the default case gives 1. This holds of the four
  largest levels too.
\<close>

lemma priorityOf_levelPrefix_pos: "0 < priorityOf (levelPrefix l)"
proof -
  have len: "length priorityPrefixes = 17" by (simp add: priorityPrefixes_def)
  have "list_all (\<lambda>p. 0 < priorityOf p) priorityPrefixes"
    by (simp add: priorityPrefixes_def priorityOf_prefixes)
  then have tbl: "0 < priorityOf (priorityPrefixes ! i)" if "i < 17" for i
    using that len by (simp add: list_all_length)
  define i where "i = sint (l - LevelDebug)"
  consider (neg) "i < 0" | (tab) "0 \<le> i" "i < 17" | (dflt) "17 \<le> i" by linarith
  then show ?thesis
  proof cases
    case neg
    then show ?thesis by (simp add: levelPrefix_def i_def [symmetric] priorityOf_prefixes)
  next
    case tab
    then have "levelPrefix l = priorityPrefixes ! nat i"
      by (simp add: levelPrefix_def i_def [symmetric] len)
    moreover from tab have "nat i < 17" by simp
    ultimately show ?thesis using tbl by simp
  next
    case dflt
    then show ?thesis by (simp add: levelPrefix_def i_def [symmetric] len priorityOf_prefixes)
  qed
qed

section \<open>The claims about the priority\<close>

text \<open>
  C2, as the code has it. A level below \<^verbatim>\<open>LevelDebug\<close> is given priority 7. A
  level above \<^verbatim>\<open>LevelCrit\<close>, the last of the table, is given priority 1
  (\<^verbatim>\<open>prefixAlert\<close>) and not 0, as long as subtracting \<^verbatim>\<open>LevelDebug\<close> from it
  does not overflow. No level at all, whether below, within or above the table or
  among the four largest, is given priority 0: \<^verbatim>\<open>prefixEmerg\<close> is never chosen.
\<close>

theorem levelPrefix_clamps:
  "(sint l < sint LevelDebug \<longrightarrow> priorityOf (levelPrefix l) = 7) \<and>
   (sint LevelCrit < sint l \<and> sint l \<le> sint MaxLevel - 4 \<longrightarrow> priorityOf (levelPrefix l) = 1) \<and>
   priorityOf (levelPrefix l) \<noteq> 0 \<and> levelPrefix l \<noteq> prefixEmerg"
proof -
  have p: "priorityOf (levelPrefix l) \<noteq> 0" using priorityOf_levelPrefix_pos [of l] by simp
  then have "levelPrefix l \<noteq> prefixEmerg" by (auto simp add: priorityOf_prefixes)
  with p show ?thesis by (simp add: levelPrefix_below levelPrefix_above priorityOf_prefixes)
qed

theorem levelPrefix_clamps_witness:
  "priorityOf (levelPrefix (- 5)) = 7 \<and> priorityOf (levelPrefix 13) = 1 \<and>
   priorityOf (levelPrefix MaxLevel) \<noteq> 0"
proof -
  have lo: "sint (- 5 :: Level) < sint LevelDebug" by (simp add: LevelDebug_def)
  have hi: "sint LevelCrit < sint (13 :: Level) \<and> sint (13 :: Level) \<le> sint MaxLevel - 4"
    by (simp add: LevelCrit_def LevelError_def MaxLevel_def)
  from levelPrefix_clamps [of "- 5", THEN conjunct1, THEN mp, OF lo]
    levelPrefix_clamps [of 13, THEN conjunct2, THEN conjunct1, THEN mp, OF hi]
    levelPrefix_clamps [of MaxLevel, THEN conjunct2, THEN conjunct2, THEN conjunct1]
  show ?thesis by simp
qed

text \<open>
  C2 as stated fails: level 17 lies above every named tier (\<^verbatim>\<open>LevelCrit\<close> is 12,
  \<^verbatim>\<open>LevelAlert\<close> is 16) and is given priority 1, not 0.
\<close>

theorem levelPrefix_above_counterexample:
  "sint LevelCrit < sint (17 :: Level) \<and> sint LevelAlert < sint (17 :: Level) \<and>
   priorityOf (levelPrefix 17) = 1 \<and> priorityOf (levelPrefix 17) \<noteq> 0"
  by (simp add: levelPrefix_def priorityPrefixes_def LevelDebug_def LevelCrit_def LevelAlert_def
      LevelError_def priorityOf_prefixes)

text \<open>
  C3 at the largest level: \<^verbatim>\<open>math.MaxInt64 - LevelDebug\<close> wraps around to a negative
  number, so the first case of the \<^verbatim>\<open>switch\<close> gives priority 7, although the
  smaller level 13 is given priority 1.
\<close>

theorem levelPrefix_MaxLevel_wraps:
  "sint (13 :: Level) \<le> sint MaxLevel \<and>
   priorityOf (levelPrefix 13) = 1 \<and> priorityOf (levelPrefix MaxLevel) = 7"
  by (simp add: levelPrefix_def priorityPrefixes_def LevelDebug_def MaxLevel_def
      priorityOf_prefixes)

section \<open>Facts about the renderer\<close>

lemma specialCases_group: "specialCases tf v = KindGroup as \<Longrightarrow> v = KindGroup as"
  by (cases "(tf, v)" rule: specialCases.cases) auto

lemma appendString_fields [simp]:
  "h (appendString wr s str) = h s" "sep (appendString wr s str) = sep s"
  "prefix (appendString wr s str) = prefix s" "freeBuf (appendString wr s str) = freeBuf s"
  "buf (appendString wr s str) = wr (buf s) (escapedText str)"
  by (simp_all add: appendString_def escapedText_def)

lemma appendKey_fields [simp]:
  "h (appendKey wr s key) = h s" "sep (appendKey wr s key) = '' ''"
  "prefix (appendKey wr s key) = prefix s" "freeBuf (appendKey wr s key) = freeBuf s"
  "buf (appendKey wr s key) = wr (wr (wr (buf s) (sep s)) (escapedText (prefix s @ key))) ''=''"
  by (simp_all add: appendKey_def Let_def)

lemma openGroup_fields [simp]:
  "h (openGroup s name) = h s" "sep (openGroup s name) = sep s"
  "prefix (openGroup s name) = prefix s @ name @ [keyComponentSep]"
  "freeBuf (openGroup s name) = freeBuf s" "buf (openGroup s name) = buf s"
  by (simp_all add: openGroup_def)

lemma closeGroup_fields [simp]:
  "h (closeGroup s name) = h s" "sep (closeGroup s name) = '' ''"
  "prefix (closeGroup s name) = take (length (prefix s) - length name - 1) (prefix s)"
  "freeBuf (closeGroup s name) = freeBuf s" "buf (closeGroup s name) = buf s"
  by (simp_all add: closeGroup_def)

lemma isEmptyAttr_iff: "isEmptyAttr (k, v) \<longleftrightarrow> k = [] \<and> v = KindAny AnyNil"
  by (cases "(k, v)" rule: isEmptyAttr.cases) auto

lemma appendAttr_elide:
  "fst a = [] \<Longrightarrow> Resolve (snd a) = KindAny AnyNil \<Longrightarrow> appendAttr wr s a = s"
  by (simp add: appendAttr.simps [of wr s a])

lemma specialCases_not_group:
  "(\<forall>as. v \<noteq> KindGroup as) \<Longrightarrow> specialCases tf v \<noteq> KindGroup as"
  using specialCases_group by blast

lemma appendAttr_group:
  assumes "Resolve (snd a) = KindGroup as"
  shows "appendAttr wr s a =
     (if as = [] then s
      else if fst a \<noteq> [] then closeGroup (appendAttrs wr (openGroup s (fst a)) as) (fst a)
      else appendAttrs wr s as)"
  using assms by (simp add: appendAttr.simps [of wr s a] appendAttrs_def Let_def)

lemma appendAttr_leaf:
  assumes "\<not> isEmptyAttr (fst a, Resolve (snd a))"
    and "\<forall>as. Resolve (snd a) \<noteq> KindGroup as"
  shows "appendAttr wr s a =
     appendString wr (appendKey wr s (fst a))
       (ValueString (specialCases (timeFormat (h s)) (Resolve (snd a))))"
proof -
  from assms(2) have ng: "\<forall>as. specialCases (timeFormat (h s)) (Resolve (snd a)) \<noteq> KindGroup as"
    using specialCases_group by blast
  show ?thesis
    using assms(1) ng
    by (simp add: appendAttr.simps [of wr s a] Let_def split: Value.splits)
qed

lemma appendAttrs_simps [simp]:
  "appendAttrs wr s [] = s"
  "appendAttrs wr s (a # as) = appendAttrs wr (appendAttr wr s a) as"
  by (simp_all add: appendAttrs_def)

lemma appendAttrs_append: "appendAttrs wr s (as @ bs) = appendAttrs wr (appendAttrs wr s as) bs"
  by (simp add: appendAttrs_def)

text \<open>A property every \<^verbatim>\<open>appendAttr\<close> of a loop preserves holds after the loop.\<close>

lemma appendAttrs_induct_aux:
  assumes "\<And>a st. a \<in> set as \<Longrightarrow> P st \<Longrightarrow> P (appendAttr wr st a)" and "P s"
  shows "P (appendAttrs wr s as)"
  using assms by (induction as arbitrary: s) auto

text \<open>
  \<^verbatim>\<open>appendAttr\<close> leaves the handler, the key prefix and \<^verbatim>\<open>freeBuf\<close> of the state
  as they were: a group it opens it closes.
\<close>

lemma appendAttr_frame:
  "h (appendAttr wr s a) = h s \<and> prefix (appendAttr wr s a) = prefix s \<and>
   freeBuf (appendAttr wr s a) = freeBuf s"
proof (induction wr s a rule: appendAttr.induct)
  case (1 wr s a)
  show ?case
  proof (cases "\<exists>as. Resolve (snd a) = KindGroup as")
    case True
    then obtain as where g: "Resolve (snd a) = KindGroup as" by blast
    have ne: "\<not> isEmptyAttr (fst a, Resolve (snd a))" using g by (simp add: isEmptyAttr_iff)
    have sc: "specialCases (timeFormat (h s)) (Resolve (snd a)) = KindGroup as"
      using g by simp
    show ?thesis
    proof (cases "as = []")
      case True
      with g show ?thesis by (simp add: appendAttr_group)
    next
      case False
      then have pos: "0 < length as" by simp
      have step: "\<And>aa st. aa \<in> set as \<Longrightarrow>
          h (appendAttr wr st aa) = h st \<and> prefix (appendAttr wr st aa) = prefix st \<and>
          freeBuf (appendAttr wr st aa) = freeBuf st"
        using "1.IH" [OF refl ne sc pos refl] by blast
      have loop: "h (appendAttrs wr s0 as) = h s0 \<and> prefix (appendAttrs wr s0 as) = prefix s0
          \<and> freeBuf (appendAttrs wr s0 as) = freeBuf s0" for s0
        by (rule appendAttrs_induct_aux [where P = "\<lambda>st. h st = h s0 \<and> prefix st = prefix s0 \<and> freeBuf st = freeBuf s0"])
          (use step in auto)
      show ?thesis
        using g False loop [of s] loop [of "openGroup s (fst a)"]
        by (simp add: appendAttr_group)
    qed
  next
    case False
    then have ng: "\<forall>as. Resolve (snd a) \<noteq> KindGroup as" by blast
    show ?thesis
    proof (cases "isEmptyAttr (fst a, Resolve (snd a))")
      case True
      then show ?thesis by (simp add: appendAttr.simps [of wr s a])
    next
      case False
      with ng show ?thesis by (simp add: appendAttr_leaf)
    qed
  qed
qed

text \<open>
  The renderer on two buffers that simulate each other: by computation induction on
  \<^verbatim>\<open>appendAttr\<close>, the loops by induction on the list.
\<close>

lemma mapBuf_fields [simp]:
  "h (mapBuf f s) = h s" "buf (mapBuf f s) = f (buf s)" "freeBuf (mapBuf f s) = freeBuf s"
  "sep (mapBuf f s) = sep s" "prefix (mapBuf f s) = prefix s"
  by (simp_all add: mapBuf_def)

lemma mapBuf_openGroup: "mapBuf f (openGroup s n) = openGroup (mapBuf f s) n"
  by (simp add: mapBuf_def openGroup_def)

lemma mapBuf_closeGroup: "mapBuf f (closeGroup s n) = closeGroup (mapBuf f s) n"
  by (simp add: mapBuf_def closeGroup_def)

lemma mapBuf_appendString:
  assumes "simulates I f wr1 wr2" and "I (buf s)"
  shows "I (buf (appendString wr1 s str)) \<and>
         mapBuf f (appendString wr1 s str) = appendString wr2 (mapBuf f s) str"
  using assms by (simp add: simulates_def appendString_def mapBuf_def)

lemma mapBuf_appendKey:
  assumes "simulates I f wr1 wr2" and "I (buf s)"
  shows "I (buf (appendKey wr1 s key)) \<and>
         mapBuf f (appendKey wr1 s key) = appendKey wr2 (mapBuf f s) key"
  using assms by (simp add: simulates_def mapBuf_def handleState.equality)

lemma mapBuf_appendAttrs_aux:
  assumes step: "\<And>a st. a \<in> set as \<Longrightarrow> I (buf st) \<Longrightarrow>
      I (buf (appendAttr wr1 st a)) \<and> mapBuf f (appendAttr wr1 st a) = appendAttr wr2 (mapBuf f st) a"
    and "I (buf s)"
  shows "I (buf (appendAttrs wr1 s as)) \<and>
         mapBuf f (appendAttrs wr1 s as) = appendAttrs wr2 (mapBuf f s) as"
  using assms
proof (induction as arbitrary: s)
  case Nil
  then show ?case by simp
next
  case (Cons a as)
  from Cons.prems(1) [of a s] Cons.prems(2)
  have a: "I (buf (appendAttr wr1 s a))"
    and b: "mapBuf f (appendAttr wr1 s a) = appendAttr wr2 (mapBuf f s) a" by simp_all
  from Cons.IH [of "appendAttr wr1 s a"] Cons.prems(1) a
  have "I (buf (appendAttrs wr1 (appendAttr wr1 s a) as)) \<and>
      mapBuf f (appendAttrs wr1 (appendAttr wr1 s a) as) =
      appendAttrs wr2 (mapBuf f (appendAttr wr1 s a)) as"
    by simp
  with b show ?case by simp
qed

lemma mapBuf_appendAttr:
  "simulates I f wr1 wr2 \<Longrightarrow> I (buf s) \<Longrightarrow> I (buf (appendAttr wr1 s a)) \<and>
         mapBuf f (appendAttr wr1 s a) = appendAttr wr2 (mapBuf f s) a"
proof (induction wr1 s a rule: appendAttr.induct)
  case (1 wr1 s a)
  note sim = \<open>simulates I f wr1 wr2\<close>
  note inv = \<open>I (buf s)\<close>
  show ?case
  proof (cases "\<exists>as. Resolve (snd a) = KindGroup as")
    case True
    then obtain as where g: "Resolve (snd a) = KindGroup as" by blast
    have ne: "\<not> isEmptyAttr (fst a, Resolve (snd a))" using g by (simp add: isEmptyAttr_iff)
    have sc: "specialCases (timeFormat (h s)) (Resolve (snd a)) = KindGroup as"
      using g by simp
    show ?thesis
    proof (cases "as = []")
      case True
      with g inv show ?thesis by (simp add: appendAttr_group)
    next
      case False
      then have pos: "0 < length as" by simp
      have step: "\<And>aa st. aa \<in> set as \<Longrightarrow> I (buf st) \<Longrightarrow>
          I (buf (appendAttr wr1 st aa)) \<and>
          mapBuf f (appendAttr wr1 st aa) = appendAttr wr2 (mapBuf f st) aa"
        using "1.IH" [OF refl ne sc pos refl] sim by blast
      have loop: "I (buf s0) \<Longrightarrow> I (buf (appendAttrs wr1 s0 as)) \<and>
          mapBuf f (appendAttrs wr1 s0 as) = appendAttrs wr2 (mapBuf f s0) as" for s0
        by (rule mapBuf_appendAttrs_aux) (use step in auto)
      show ?thesis
        using g False inv loop [of s] loop [of "openGroup s (fst a)"]
        by (simp add: appendAttr_group mapBuf_closeGroup mapBuf_openGroup)
    qed
  next
    case False
    then have ng: "\<forall>as. Resolve (snd a) \<noteq> KindGroup as" by blast
    show ?thesis
    proof (cases "isEmptyAttr (fst a, Resolve (snd a))")
      case True
      then show ?thesis using inv
        by (simp add: appendAttr.simps [of _ _ a])
    next
      case False
      note kk = mapBuf_appendKey [OF sim inv, of "fst a"]
      have k: "I (buf (appendKey wr1 s (fst a)))" by (rule kk [THEN conjunct1])
      have k': "mapBuf f (appendKey wr1 s (fst a)) = appendKey wr2 (mapBuf f s) (fst a)"
        by (rule kk [THEN conjunct2])
      note ss = mapBuf_appendString [OF sim k]
      have e: "appendAttr wr1 s a = appendString wr1 (appendKey wr1 s (fst a))
          (ValueString (specialCases (timeFormat (h s)) (Resolve (snd a))))"
        using False ng by (rule appendAttr_leaf)
      have e': "appendAttr wr2 (mapBuf f s) a = appendString wr2 (appendKey wr2 (mapBuf f s) (fst a))
          (ValueString (specialCases (timeFormat (h s)) (Resolve (snd a))))"
        using appendAttr_leaf [OF False ng, of wr2 "mapBuf f s"] by simp
      show ?thesis unfolding e e' using ss k' by metis
    qed
  qed
qed

lemma mapBuf_appendAttrs:
  assumes "simulates I f wr1 wr2" and "I (buf s)"
  shows "I (buf (appendAttrs wr1 s as)) \<and>
         mapBuf f (appendAttrs wr1 s as) = appendAttrs wr2 (mapBuf f s) as"
  by (rule mapBuf_appendAttrs_aux) (use assms mapBuf_appendAttr in blast)+

text \<open>\<^verbatim>\<open>openGroups\<close> in closed form, and the renderer on a buffer that already holds text.\<close>

lemma fold_openGroup:
  "fold (\<lambda>n st. openGroup st n) ns s =
     s\<lparr>prefix := prefix s @ concat (map (\<lambda>n. n @ [keyComponentSep]) ns)\<rparr>"
  by (induction ns arbitrary: s) (simp_all add: openGroup_def)

lemma openGroups_eq:
  "openGroups s =
     (if nOpenGroups (h s) \<le> length (groups (h s))
      then Some (s\<lparr>prefix := prefix s @ pendingPrefix (h s)\<rparr>) else None)"
  by (simp add: openGroups_def fold_openGroup pendingPrefix_def)

lemma mapBuf_openGroups:
  "openGroups (mapBuf f s) = map_option (mapBuf f) (openGroups s)"
  by (simp add: openGroups_eq mapBuf_def)

lemma Resolve_simps [simp]:
  "Resolve (KindAny x) = KindAny x" "Resolve (KindBool b) = KindBool b"
  "Resolve (KindDuration d) = KindDuration d" "Resolve (KindFloat64 d) = KindFloat64 d"
  "Resolve (KindInt64 i) = KindInt64 i" "Resolve (KindString str) = KindString str"
  "Resolve (KindTime t) = KindTime t" "Resolve (KindUint64 n) = KindUint64 n"
  "Resolve (KindGroup as) = KindGroup as"
  by (simp_all add: Resolve_def eval_nat_numeral)

lemma simulates_shift: "simulates (\<lambda>b. True) ((@) b0) WriteString WriteString"
  by (simp add: simulates_def WriteString_def)

lemma appendAttrs_shift:
  "mapBuf ((@) b0) (appendAttrs WriteString s as) = appendAttrs WriteString (mapBuf ((@) b0) s) as"
  using mapBuf_appendAttrs [OF simulates_shift [of b0], where s = s and as = as] by simp

lemma appendAttrs_frame:
  "h (appendAttrs wr s as) = h s \<and> prefix (appendAttrs wr s as) = prefix s \<and>
   freeBuf (appendAttrs wr s as) = freeBuf s"
  by (rule appendAttrs_induct_aux [where P = "\<lambda>st. h st = h s \<and> prefix st = prefix s \<and> freeBuf st = freeBuf s"])
    (simp_all add: appendAttr_frame)

lemma mapBuf_update:
  "mapBuf f (s\<lparr>prefix := p\<rparr>) = (mapBuf f s)\<lparr>prefix := p\<rparr>"
  "mapBuf f (s\<lparr>sep := x\<rparr>) = (mapBuf f s)\<lparr>sep := x\<rparr>"
  "mapBuf f (s\<lparr>buf := b\<rparr>) = (mapBuf f s)\<lparr>buf := f b\<rparr>"
  by (simp_all add: mapBuf_def)

lemma mapBuf_appendNonBuiltIns:
  assumes "simulates I f wr1 wr2" and "I (buf s)"
  shows "appendNonBuiltIns wr2 (mapBuf f s) r = map_option (mapBuf f) (appendNonBuiltIns wr1 s r)
     \<and> (\<forall>s'. appendNonBuiltIns wr1 s r = Some s' \<longrightarrow> I (buf s'))"
proof -
  define s1 where "s1 = (if length (preformattedAttrs (h s)) > 0
               then (s\<lparr>buf := wr1 (wr1 (buf s) (sep s)) (preformattedAttrs (h s)), sep := '' ''\<rparr>)
               else s)"
  define s2 where "s2 = s1\<lparr>prefix := prefix s1 @ groupPrefix (h s1)\<rparr>"
  have i1: "I (buf s1)" using assms by (simp add: s1_def simulates_def)
  then have i2: "I (buf s2)" by (simp add: s2_def)
  have m1: "mapBuf f s1 = (if length (preformattedAttrs (h s)) > 0
               then ((mapBuf f s)\<lparr>buf := wr2 (wr2 (buf (mapBuf f s)) (sep s)) (preformattedAttrs (h s)), sep := '' ''\<rparr>)
               else mapBuf f s)"
    using assms by (simp add: s1_def simulates_def mapBuf_def)
  have m2: "mapBuf f s2 = (mapBuf f s1)\<lparr>prefix := prefix s1 @ groupPrefix (h s1)\<rparr>"
    by (simp add: s2_def mapBuf_def)
  have e1: "appendNonBuiltIns wr1 s r =
      (case openGroups s2 of None \<Rightarrow> None | Some s \<Rightarrow> Some (appendAttrs wr1 s (Attrs r)))"
    by (simp add: appendNonBuiltIns_def Let_def s1_def s2_def)
  have e2: "appendNonBuiltIns wr2 (mapBuf f s) r =
      (case openGroups (mapBuf f s2) of None \<Rightarrow> None | Some s \<Rightarrow> Some (appendAttrs wr2 s (Attrs r)))"
    using assms by (simp add: appendNonBuiltIns_def Let_def s2_def s1_def mapBuf_update simulates_def)
  show ?thesis
  proof (cases "openGroups s2")
    case None
    then show ?thesis by (simp add: e1 e2 mapBuf_openGroups)
  next
    case (Some s3)
    then have "buf s3 = buf s2" by (auto simp: openGroups_eq split: if_splits)
    with i2 have i3: "I (buf s3)" by simp
    from mapBuf_appendAttrs [OF assms(1) i3, of "Attrs r"] Some
    show ?thesis by (simp add: e1 e2 mapBuf_openGroups)
  qed
qed

section \<open>The entry and its message field\<close>

lemma length_leBytes [simp]: "length (leBytes k v) = k"
  by (induction k arbitrary: v) simp_all

lemma leValue_leBytes: "leValue (leBytes k v) = v mod 256 ^ k"
proof (induction k arbitrary: v)
  case 0
  then show ?case by simp
next
  case (Suc k)
  have "of_char (char_of (v mod 256) :: char) = v mod 256"
    by (simp add: of_char_of)
  then have "leValue (leBytes (Suc k) v) = v mod 256 + 256 * ((v div 256) mod 256 ^ k)"
    by (simp add: Suc.IH)
  also have "\<dots> = v mod 256 ^ Suc k"
    by (simp add: mod_mult2_eq)
  finally show ?case .
qed

lemma levelPrefix_form: "\<exists>d. levelPrefix l = ''PRIORITY='' @ [d] @ messageHeader"
proof -
  have tbl: "list_all (\<lambda>p. \<exists>d. p = ''PRIORITY='' @ [d] @ messageHeader) priorityPrefixes"
    by (simp add: priorityPrefixes_def prefixDebug_def prefixInfo_def prefixNotice_def
        prefixWarning_def prefixErr_def prefixCrit_def)
  show ?thesis
  proof (cases "sint (l - LevelDebug) < 0")
    case True
    then show ?thesis by (simp add: levelPrefix_def prefixDebug_def)
  next
    case False
    show ?thesis
    proof (cases "sint (l - LevelDebug) < int (length priorityPrefixes)")
      case True
      with False have "nat (sint (l - LevelDebug)) < length priorityPrefixes" by simp
      with tbl have "\<exists>d. priorityPrefixes ! nat (sint (l - LevelDebug)) = ''PRIORITY='' @ [d] @ messageHeader"
        by (simp add: list_all_length)
      with True False show ?thesis by (simp add: levelPrefix_def)
    next
      case b: False
      with False show ?thesis by (simp add: levelPrefix_def prefixAlert_def)
    qed
  qed
qed

lemma encodeEntry_eq:
  assumes valid: "nOpenGroups hdl \<le> length (groups hdl)" and pfx: "8 \<le> length pfx"
  shows "encodeEntry hdl r pfx suffix =
     Some (take (length pfx - 8) pfx @ leBytes 8 (length (messagePayload hdl r) mod 2 ^ 64) @
           messagePayload hdl r @ suffix @ timestampField r)"
proof -
  define s0 :: "string handleState"
    where "s0 = newHandleState hdl newBuffer True '': ''"
  define b0 where "b0 = pfx @ msgPrefix hdl @ Message r"
  have st: "\<lparr>h = hdl, buf = pfx @ msgPrefix hdl @ Message r, freeBuf = True, sep = '': '',
      prefix = []\<rparr> = mapBuf ((@) b0) s0"
    by (simp add: s0_def b0_def mapBuf_def newHandleState_def newBuffer_def)
  from mapBuf_appendNonBuiltIns [OF simulates_shift [of b0], of s0 r]
  have sh: "appendNonBuiltIns WriteString (mapBuf ((@) b0) s0) r =
      map_option (mapBuf ((@) b0)) (appendNonBuiltIns WriteString s0 r)" by simp
  have ok: "\<exists>s'. appendNonBuiltIns WriteString s0 r = Some s'"
    using valid by (simp add: appendNonBuiltIns_def Let_def openGroups_eq s0_def newHandleState_def)
  then obtain s' where s': "appendNonBuiltIns WriteString s0 r = Some s'" by blast
  then have pl: "messagePayload hdl r = msgPrefix hdl @ Message r @ buf s'"
    by (simp add: messagePayload_def attrsText_def s0_def)
  have app: "appendNonBuiltIns WriteString \<lparr>h = hdl, buf = pfx @ msgPrefix hdl @ Message r,
      freeBuf = True, sep = '': '', prefix = []\<rparr> r = Some (mapBuf ((@) b0) s')"
    unfolding st sh s' by simp
  show ?thesis
    using pfx
    by (simp add: encodeEntry_def Let_def newHandleState_def newBuffer_def WriteString_def
        app pl PutUint64_def timestampField_def b0_def)
qed

lemma loadSuffix_newline:
  assumes "cacheOK cache"
  shows "fst (loadSuffix env cache pc) \<noteq> [] \<and> hd (fst (loadSuffix env cache pc)) = CHR 0x0A \<and>
         cacheOK (snd (loadSuffix env cache pc))"
  using assms by (auto simp: loadSuffix_def cacheOK_def Let_def split: option.splits)

lemma readMessage_entry:
  assumes "length payload < 2 ^ 64" and "rest \<noteq> []" and "hd rest = CHR 0x0A"
  shows "readMessage (''PRIORITY='' @ [d] @ [CHR 0x0A] @ ''MESSAGE'' @ [CHR 0x0A] @
            leBytes 8 (length payload mod 2 ^ 64) @ payload @ rest)
         = Some (length payload, payload)"
proof -
  have u: "Uint64 (leBytes 8 (length payload mod 2 ^ 64) @ payload @ rest) = length payload"
    using assms(1) by (simp add: Uint64_def leValue_leBytes)
  have n: "(payload @ rest) ! length payload = CHR 0x0A"
    using assms(2,3) by (simp add: nth_append hd_conv_nth)
  show ?thesis
    using assms(2) n u by (simp add: readMessage_def Let_def)
qed

lemma encodeEntry_levelPrefix:
  assumes valid: "nOpenGroups hdl \<le> length (groups hdl)"
  shows "\<exists>d. encodeEntry hdl r (levelPrefix l) suffix =
     Some (''PRIORITY='' @ [d] @ [CHR 0x0A] @ ''MESSAGE'' @ [CHR 0x0A] @
           leBytes 8 (length (messagePayload hdl r) mod 2 ^ 64) @
           messagePayload hdl r @ suffix @ timestampField r)"
proof -
  obtain d where d: "levelPrefix l = ''PRIORITY='' @ [d] @ messageHeader"
    using levelPrefix_form by blast
  have "encodeEntry hdl r (levelPrefix l) suffix =
     Some (take (length (levelPrefix l) - 8) (levelPrefix l) @
           leBytes 8 (length (messagePayload hdl r) mod 2 ^ 64) @
           messagePayload hdl r @ suffix @ timestampField r)"
    by (rule encodeEntry_eq [OF valid]) (simp add: d messageHeader_def)
  then show ?thesis by (simp add: d messageHeader_def)
qed

text \<open>\<^verbatim>\<open>Handle\<close> sends the entry first, whatever happens afterwards.\<close>

lemma Handle_sends:
  assumes valid: "nOpenGroups hdl \<le> length (groups hdl)"
  shows "\<exists>res evs.
     Handle env cache hdl r =
       Some (res, WriteMsgUnix (sock hdl) (addr hdl)
                    (the (encodeEntry hdl r (levelPrefix (Level r)) (fst (loadSuffix env cache (PC r))))) None # evs,
             snd (loadSuffix env cache (PC r)))"
proof -
  obtain d where "encodeEntry hdl r (levelPrefix (Level r)) (fst (loadSuffix env cache (PC r))) \<noteq> None"
    using encodeEntry_levelPrefix [OF valid, of r "Level r"] by fastforce
  then show ?thesis
    by (auto simp: Handle_def Let_def split_beta split: option.splits)
qed

text \<open>
  C1. For every record, every handler whose counter of open groups is within its group
  list, and every cache that \<^verbatim>\<open>Handle\<close> filled: \<^verbatim>\<open>Handle\<close> sends a datagram
  whose message field is in the length-prefixed form, the eight bytes of the length slot
  read back as exactly the number of bytes of the payload that follows (the payload being
  shorter than \<open>2 ^ 64\<close> bytes, as every Go slice is), and the payload is the message
  prefix, the message and the rendered attributes.
\<close>

theorem Handle_message_length:
  assumes valid: "nOpenGroups hdl \<le> length (groups hdl)"
    and cache: "cacheOK cache"
    and bound: "length (messagePayload hdl r) < 2 ^ 64"
  shows "\<exists>res e evs cache'.
     Handle env cache hdl r = Some (res, WriteMsgUnix (sock hdl) (addr hdl) e None # evs, cache') \<and>
     readMessage e = Some (length (messagePayload hdl r), messagePayload hdl r) \<and>
     messagePayload hdl r = msgPrefix hdl @ Message r @ attrsText hdl r"
proof -
  define suffix where "suffix = fst (loadSuffix env cache (PC r))"
  have sfx: "suffix \<noteq> []" "hd suffix = CHR 0x0A"
    using loadSuffix_newline [OF cache, of env "PC r"] by (simp_all add: suffix_def)
  obtain d where e: "encodeEntry hdl r (levelPrefix (Level r)) suffix =
     Some (''PRIORITY='' @ [d] @ [CHR 0x0A] @ ''MESSAGE'' @ [CHR 0x0A] @
           leBytes 8 (length (messagePayload hdl r) mod 2 ^ 64) @
           messagePayload hdl r @ suffix @ timestampField r)"
    using encodeEntry_levelPrefix [OF valid] by blast
  have rd: "readMessage (the (encodeEntry hdl r (levelPrefix (Level r)) suffix)) =
      Some (length (messagePayload hdl r), messagePayload hdl r)"
    unfolding e option.sel
    using readMessage_entry [OF bound, of "suffix @ timestampField r" d] sfx by simp
  from Handle_sends [OF valid, of env cache r] rd
  show ?thesis unfolding suffix_def by (auto simp: messagePayload_def)
qed

lemma NewHandler_default: "NewHandler (Inr 3) None = Inr defaultHandler"
  by (simp add: NewHandler_def defaultHandler_def)

lemma appendAttr_string:
  "appendAttr wr s (k, KindString x) = appendString wr (appendKey wr s k) x"
  by (simp add: appendAttr_leaf isEmptyAttr_iff)

lemma messagePayload_example:
  "messagePayload defaultHandler
     \<lparr>Time = zeroTime, Message = ''m'', Level = LevelInfo, PC = 0,
      Attrs = [(''a'', KindString ''1''), (''b'', KindString ''x y'')]\<rparr>
   = ''m: a=1 b='' @ [CHR 0x22] @ ''x y'' @ [CHR 0x22]"
  by (simp add: messagePayload_def attrsText_def appendNonBuiltIns_def openGroups_eq
      pendingPrefix_def defaultHandler_def newHandleState_def newBuffer_def Let_def
      appendAttr_string WriteString_def escapedText_def needsQuoting_def isSpace_def
      isControl_def quoteChar_def Quote_def escapeByte_def backslash_def)

text \<open>
  The record with message \<^verbatim>\<open>m\<close> and attributes \<^verbatim>\<open>a = "1"\<close>,
  \<^verbatim>\<open>b = "x y"\<close>: the payload is \<^verbatim>\<open>m: a=1 b="x y"\<close>, 14 bytes, and 14 is the
  declared length.
\<close>

theorem Handle_message_length_witness:
  "\<exists>res e evs cache'.
     Handle quietEnv Map.empty defaultHandler
       \<lparr>Time = zeroTime, Message = ''m'', Level = LevelInfo, PC = 0,
        Attrs = [(''a'', KindString ''1''), (''b'', KindString ''x y'')]\<rparr>
     = Some (res, WriteMsgUnix 3 defaultSocket e None # evs, cache') \<and>
     readMessage e = Some (14, ''m: a=1 b='' @ [CHR 0x22] @ ''x y'' @ [CHR 0x22])"
proof -
  let ?r = "\<lparr>Time = zeroTime, Message = ''m'', Level = LevelInfo, PC = 0,
        Attrs = [(''a'', KindString ''1''), (''b'', KindString ''x y'')]\<rparr>"
  have valid: "nOpenGroups defaultHandler \<le> length (groups defaultHandler)"
    by (simp add: defaultHandler_def)
  have cache: "cacheOK Map.empty" by (simp add: cacheOK_def)
  have bound: "length (messagePayload defaultHandler ?r) < 2 ^ 64"
    by (simp add: messagePayload_example)
  have s: "sock defaultHandler = 3" "addr defaultHandler = defaultSocket"
    by (simp_all add: defaultHandler_def)
  have len: "length (''m: a=1 b='' @ [CHR 0x22] @ ''x y'' @ [CHR 0x22]) = 14" by simp
  from Handle_message_length [OF valid cache bound, of quietEnv]
  show ?thesis
    unfolding messagePayload_example s len by blast
qed

section \<open>Groups, empty attributes and quoting\<close>

lemma appendAttr_group_prefix:
  assumes "fst a \<noteq> []" and "Resolve (snd a) = KindGroup as" and "as \<noteq> []"
  shows "appendAttr wr s a =
     (appendAttrs wr (s\<lparr>prefix := prefix s @ fst a @ [keyComponentSep]\<rparr>) as)
       \<lparr>prefix := prefix s, sep := '' ''\<rparr>"
proof -
  have o: "openGroup s (fst a) = s\<lparr>prefix := prefix s @ fst a @ [keyComponentSep]\<rparr>"
    by (simp add: openGroup_def)
  have p: "prefix (appendAttrs wr (openGroup s (fst a)) as) = prefix s @ fst a @ [keyComponentSep]"
    using appendAttrs_frame [of wr "openGroup s (fst a)" as] by simp
  show ?thesis
    using assms by (simp add: appendAttr_group closeGroup_def p) (simp add: o)
qed

lemma needsQuoting_iff: "needsQuoting str \<longleftrightarrow> (\<exists>c \<in> set str. isSpace c \<or> isControl c \<or> c = quoteChar)"
  by (simp add: needsQuoting_def list_ex_iff)

text \<open>
  C4. For every attribute, state and buffer. A group with a key and with children is
  rendered as its children under the prefix extended by the key and the separator
  \<^verbatim>\<open>.\<close>, after which the prefix is what it was and a separator is due. A group
  that resolves to no children changes nothing. A group with the empty key is rendered as
  its children in the enclosing scope, with no prefix added. An attribute with the empty key
  and the zero value changes nothing. Every other attribute writes the separator, the
  prefix joined with its key, \<^verbatim>\<open>=\<close> and its value.
\<close>

theorem appendAttr_groups:
  "(fst a \<noteq> [] \<and> Resolve (snd a) = KindGroup as \<and> as \<noteq> [] \<longrightarrow>
      appendAttr wr s a =
        (appendAttrs wr (s\<lparr>prefix := prefix s @ fst a @ [keyComponentSep]\<rparr>) as)
          \<lparr>prefix := prefix s, sep := '' ''\<rparr>) \<and>
   (Resolve (snd a) = KindGroup [] \<longrightarrow> appendAttr wr s a = s) \<and>
   (fst a = [] \<and> Resolve (snd a) = KindGroup as \<longrightarrow> appendAttr wr s a = appendAttrs wr s as) \<and>
   (fst a = [] \<and> Resolve (snd a) = KindAny AnyNil \<longrightarrow> appendAttr wr s a = s) \<and>
   (\<not> isEmptyAttr (fst a, Resolve (snd a)) \<and> (\<forall>as. Resolve (snd a) \<noteq> KindGroup as) \<longrightarrow>
      buf (appendAttr wr s a) =
        wr (wr (wr (wr (buf s) (sep s)) (escapedText (prefix s @ fst a))) ''='')
           (escapedText (ValueString (specialCases (timeFormat (h s)) (Resolve (snd a))))))"
proof (intro conjI impI)
  assume "fst a \<noteq> [] \<and> Resolve (snd a) = KindGroup as \<and> as \<noteq> []"
  then show "appendAttr wr s a =
        (appendAttrs wr (s\<lparr>prefix := prefix s @ fst a @ [keyComponentSep]\<rparr>) as)
          \<lparr>prefix := prefix s, sep := '' ''\<rparr>"
    by (simp add: appendAttr_group_prefix)
next
  assume "Resolve (snd a) = KindGroup []"
  then show "appendAttr wr s a = s" by (simp add: appendAttr_group)
next
  assume "fst a = [] \<and> Resolve (snd a) = KindGroup as"
  then show "appendAttr wr s a = appendAttrs wr s as" by (simp add: appendAttr_group)
next
  assume "fst a = [] \<and> Resolve (snd a) = KindAny AnyNil"
  then show "appendAttr wr s a = s" by (simp add: appendAttr_elide)
next
  assume "\<not> isEmptyAttr (fst a, Resolve (snd a)) \<and> (\<forall>as. Resolve (snd a) \<noteq> KindGroup as)"
  then show "buf (appendAttr wr s a) =
        wr (wr (wr (wr (buf s) (sep s)) (escapedText (prefix s @ fst a))) ''='')
           (escapedText (ValueString (specialCases (timeFormat (h s)) (Resolve (snd a)))))"
    by (simp add: appendAttr_leaf)
qed

lemma escapedText_plain [simp]:
  "escapedText ''req.id'' = ''req.id''" "escapedText ''7'' = ''7''"
  "escapedText ''x'' = ''x''" "escapedText ''1'' = ''1''"
  by (simp_all add: escapedText_def needsQuoting_def isSpace_def isControl_def quoteChar_def)

text \<open>
  The four attributes of the claim: \<^verbatim>\<open>{req: {id: "7"}}\<close> gives \<^verbatim>\<open>req.id=7\<close>,
  \<^verbatim>\<open>{req: {}}\<close> nothing, \<^verbatim>\<open>{"": {x: "1"}}\<close> gives \<^verbatim>\<open>x=1\<close>, and the
  zero attribute nothing.
\<close>

theorem appendAttr_groups_witness:
  "buf (appendAttr WriteString emptyState (''req'', KindGroup [(''id'', KindString ''7'')])) = ''req.id=7'' \<and>
   appendAttr WriteString emptyState (''req'', KindGroup []) = emptyState \<and>
   buf (appendAttr WriteString emptyState ([], KindGroup [(''x'', KindString ''1'')])) = ''x=1'' \<and>
   appendAttr WriteString emptyState ([], KindAny AnyNil) = emptyState"
proof -
  let ?s = emptyState
  note T = appendAttr_groups
  have leaf: "buf (appendAttr WriteString st (k, KindString x)) =
      buf st @ sep st @ escapedText (prefix st @ k) @ ''='' @ escapedText x" for st k x
    using T [where a = "(k, KindString x)" and wr = WriteString and s = st, THEN conjunct2, THEN conjunct2,
        THEN conjunct2, THEN conjunct2]
    by (simp add: isEmptyAttr_iff WriteString_def)
  have 1: "buf (appendAttr WriteString ?s (''req'', KindGroup [(''id'', KindString ''7'')])) = ''req.id=7''"
    using T [where a = "(''req'', KindGroup [(''id'', KindString ''7'')])"
        and as = "[(''id'', KindString ''7'')]" and wr = WriteString and s = ?s, THEN conjunct1]
    by (simp add: leaf emptyState_def newHandleState_def newBuffer_def keyComponentSep_def)
  have 2: "appendAttr WriteString ?s (''req'', KindGroup []) = ?s"
    using T [where a = "(''req'', KindGroup [])" and wr = WriteString and s = ?s,
        THEN conjunct2, THEN conjunct1]
    by simp
  have 3: "buf (appendAttr WriteString ?s ([], KindGroup [(''x'', KindString ''1'')])) = ''x=1''"
    using T [where a = "([], KindGroup [(''x'', KindString ''1'')])"
        and as = "[(''x'', KindString ''1'')]" and wr = WriteString and s = ?s,
        THEN conjunct2, THEN conjunct2, THEN conjunct1]
    by (simp add: leaf emptyState_def newHandleState_def newBuffer_def)
  have 4: "appendAttr WriteString ?s ([], KindAny AnyNil) = ?s"
    using T [where a = "([], KindAny AnyNil)" and wr = WriteString and s = ?s,
        THEN conjunct2, THEN conjunct2, THEN conjunct2, THEN conjunct1]
    by simp
  from 1 2 3 4 show ?thesis by blast
qed

lemma Quote_neq: "Quote str \<noteq> str"
proof
  assume "Quote str = str"
  then have "length (Quote str) = length str" by simp
  moreover have "length str \<le> length (concat (map escapeByte str))"
  proof (induction str)
    case Nil
    then show ?case by simp
  next
    case (Cons c cs)
    have "1 \<le> length (escapeByte c)" by (simp add: escapeByte_def Let_def)
    with Cons show ?case by simp
  qed
  ultimately show False by (simp add: Quote_def)
qed

text \<open>
  C5. For every string, \<^verbatim>\<open>appendString\<close> writes it quoted if it contains
  whitespace, a control character or the quote character, and writes it as it is
  otherwise; the quoted form starts and ends with the quote character and is never the
  string itself. The value of an attribute that is neither elided nor a group is written by
  \<^verbatim>\<open>appendString\<close>, after its key.
\<close>

theorem appendString_quotes:
  "((\<exists>c \<in> set str. isSpace c \<or> isControl c \<or> c = quoteChar) \<longrightarrow>
      buf (appendString wr s str) = wr (buf s) (Quote str)) \<and>
   (\<not> (\<exists>c \<in> set str. isSpace c \<or> isControl c \<or> c = quoteChar) \<longrightarrow>
      buf (appendString wr s str) = wr (buf s) str) \<and>
   Quote str \<noteq> str \<and> hd (Quote str) = quoteChar \<and> last (Quote str) = quoteChar \<and>
   (\<not> isEmptyAttr (fst a, Resolve (snd a)) \<and> (\<forall>as. Resolve (snd a) \<noteq> KindGroup as) \<longrightarrow>
      appendAttr wr s a =
        appendString wr (appendKey wr s (fst a))
          (ValueString (specialCases (timeFormat (h s)) (Resolve (snd a)))))"
proof (intro conjI impI)
  assume "\<exists>c \<in> set str. isSpace c \<or> isControl c \<or> c = quoteChar"
  then show "buf (appendString wr s str) = wr (buf s) (Quote str)"
    by (simp add: needsQuoting_iff [symmetric] escapedText_def)
next
  assume "\<not> (\<exists>c \<in> set str. isSpace c \<or> isControl c \<or> c = quoteChar)"
  then show "buf (appendString wr s str) = wr (buf s) str"
    by (simp add: needsQuoting_iff [symmetric] escapedText_def)
next
  show "Quote str \<noteq> str" by (rule Quote_neq)
next
  show "hd (Quote str) = quoteChar" by (simp add: Quote_def)
next
  show "last (Quote str) = quoteChar" by (simp add: Quote_def)
next
  assume "\<not> isEmptyAttr (fst a, Resolve (snd a)) \<and> (\<forall>as. Resolve (snd a) \<noteq> KindGroup as)"
  then show "appendAttr wr s a =
        appendString wr (appendKey wr s (fst a))
          (ValueString (specialCases (timeFormat (h s)) (Resolve (snd a))))"
    by (simp add: appendAttr_leaf)
qed

text \<open>
  A value with a space, one with a quote and one with a tabulator are quoted and escaped;
  the value \<^verbatim>\<open>1\<close> is written as it is.
\<close>

theorem appendString_quotes_witness:
  "buf (appendString WriteString emptyState ''x y'') = [CHR 0x22] @ ''x y'' @ [CHR 0x22] \<and>
   buf (appendString WriteString emptyState [CHR ''q'', CHR 0x22]) =
     [CHR 0x22, CHR ''q'', CHR 0x5C, CHR 0x22, CHR 0x22] \<and>
   buf (appendString WriteString emptyState [CHR ''t'', CHR 0x09]) =
     [CHR 0x22, CHR ''t'', CHR 0x5C, CHR ''t'', CHR 0x22] \<and>
   buf (appendString WriteString emptyState ''1'') = ''1'' \<and>
   buf (appendAttr WriteString emptyState (''b'', KindString ''x y'')) =
     ''b='' @ [CHR 0x22] @ ''x y'' @ [CHR 0x22]"
proof -
  note T = appendString_quotes
  have q: "buf (appendString WriteString st str) = buf st @ Quote str"
    if "\<exists>c \<in> set str. isSpace c \<or> isControl c \<or> c = quoteChar" for st str
    using T [where str = str and wr = WriteString and s = st, THEN conjunct1] that
    by (simp add: WriteString_def)
  have p: "buf (appendString WriteString st str) = buf st @ str"
    if "\<not> (\<exists>c \<in> set str. isSpace c \<or> isControl c \<or> c = quoteChar)" for st str
    using T [where str = str and wr = WriteString and s = st, THEN conjunct2, THEN conjunct1] that
    by (simp add: WriteString_def)
  have l: "appendAttr WriteString st (k, KindString x) =
      appendString WriteString (appendKey WriteString st k) x" for st k x
    using T [where a = "(k, KindString x)" and wr = WriteString and s = st]
    by (simp add: isEmptyAttr_iff)
  have c1: "\<exists>c \<in> set ''x y''. isSpace c \<or> isControl c \<or> c = quoteChar"
    by (simp add: isSpace_def)
  have c2: "\<not> (\<exists>c \<in> set ''1''. isSpace c \<or> isControl c \<or> c = quoteChar)"
    by (simp add: isSpace_def isControl_def quoteChar_def)
  have c3: "\<exists>c \<in> set [CHR ''q'', CHR 0x22]. isSpace c \<or> isControl c \<or> c = quoteChar"
    by (simp add: quoteChar_def)
  have c4: "\<exists>c \<in> set [CHR ''t'', CHR 0x09]. isSpace c \<or> isControl c \<or> c = quoteChar"
    by (simp add: isSpace_def)
  have e: "buf emptyState = []" "sep emptyState = []" "prefix emptyState = []"
    by (simp_all add: emptyState_def newHandleState_def newBuffer_def)
  have nk: "escapedText ''b'' = ''b''"
    by (simp add: escapedText_def needsQuoting_def isSpace_def isControl_def quoteChar_def)
  have 1: "buf (appendString WriteString emptyState ''x y'') = [CHR 0x22] @ ''x y'' @ [CHR 0x22]"
    unfolding q [OF c1] by (simp add: e Quote_def escapeByte_def quoteChar_def backslash_def)
  have 2: "buf (appendString WriteString emptyState [CHR ''q'', CHR 0x22]) =
     [CHR 0x22, CHR ''q'', CHR 0x5C, CHR 0x22, CHR 0x22]"
    unfolding q [OF c3] by (simp add: e Quote_def escapeByte_def quoteChar_def backslash_def)
  have 3: "buf (appendString WriteString emptyState [CHR ''t'', CHR 0x09]) =
     [CHR 0x22, CHR ''t'', CHR 0x5C, CHR ''t'', CHR 0x22]"
    unfolding q [OF c4] by (simp add: e Quote_def escapeByte_def quoteChar_def backslash_def)
  have 4: "buf (appendString WriteString emptyState ''1'') = ''1''"
    unfolding p [OF c2] by (simp add: e)
  have 5: "buf (appendAttr WriteString emptyState (''b'', KindString ''x y'')) =
     ''b='' @ [CHR 0x22] @ ''x y'' @ [CHR 0x22]"
    unfolding l q [OF c1]
    by (simp add: e nk WriteString_def Quote_def escapeByte_def quoteChar_def backslash_def)
  from 1 2 3 4 5 show ?thesis by blast
qed

section \<open>The severity floor\<close>










section \<open>Groups opened by \<^verbatim>\<open>WithGroup\<close>\<close>

lemma WithGroup_fields [simp]:
  "groups (WithGroup hdl name) = groups hdl @ [name]"
  "nOpenGroups (WithGroup hdl name) = nOpenGroups hdl"
  "preformattedAttrs (WithGroup hdl name) = preformattedAttrs hdl"
  "groupPrefix (WithGroup hdl name) = groupPrefix hdl"
  "msgPrefix (WithGroup hdl name) = msgPrefix hdl"
  "level (WithGroup hdl name) = level hdl"
  "sock (WithGroup hdl name) = sock hdl" "addr (WithGroup hdl name) = addr hdl"
  "timeFormat (WithGroup hdl name) = timeFormat hdl"
  by (simp_all add: WithGroup_def clone_def Clip_def Let_def)

lemma pendingPrefix_WithGroup:
  "nOpenGroups hdl \<le> length (groups hdl) \<Longrightarrow>
     pendingPrefix (WithGroup hdl name) = pendingPrefix hdl @ name @ [keyComponentSep]"
  by (simp add: pendingPrefix_def)

lemma attrsText_leaf:
  assumes "nOpenGroups hdl \<le> length (groups hdl)" and "Attrs r = [(k, KindString x)]"
  shows "attrsText hdl r =
     '': '' @ (if preformattedAttrs hdl \<noteq> [] then preformattedAttrs hdl @ '' '' else []) @
     escapedText (groupPrefix hdl @ pendingPrefix hdl @ k) @ ''='' @ escapedText x"
  using assms
  by (simp add: attrsText_def appendNonBuiltIns_def openGroups_eq Let_def newHandleState_def
      newBuffer_def WriteString_def appendAttr_string)

text \<open>
  C10. \<^verbatim>\<open>WithGroup\<close> with the empty name is not a no-op: the empty name is
  appended to the group list, which grows by one. When \<^verbatim>\<open>Handle\<close> later opens the
  groups of a handler whose counter is within its list, the key prefix ends with a lone
  \<^verbatim>\<open>.\<close> for that group, and the key of an attribute of the record is written with
  it.
\<close>

theorem WithGroup_empty_name:
  "groups (WithGroup hdl []) = groups hdl @ [[]] \<and>
   length (groups (WithGroup hdl [])) = Suc (length (groups hdl)) \<and>
   (nOpenGroups hdl \<le> length (groups hdl) \<longrightarrow>
      pendingPrefix (WithGroup hdl []) = pendingPrefix hdl @ ''.'' \<and>
      attrsText (WithGroup hdl []) (r\<lparr>Attrs := [(k, KindString x)]\<rparr>) =
        '': '' @ (if preformattedAttrs hdl \<noteq> [] then preformattedAttrs hdl @ '' '' else []) @
        escapedText (groupPrefix hdl @ pendingPrefix hdl @ ''.'' @ k) @ ''='' @ escapedText x)"
proof (intro conjI impI)
  show "groups (WithGroup hdl []) = groups hdl @ [[]]" by simp
  show "length (groups (WithGroup hdl [])) = Suc (length (groups hdl))" by simp
next
  assume v: "nOpenGroups hdl \<le> length (groups hdl)"
  then show p: "pendingPrefix (WithGroup hdl []) = pendingPrefix hdl @ ''.''"
    by (simp add: pendingPrefix_WithGroup keyComponentSep_def)
  have v': "nOpenGroups (WithGroup hdl []) \<le> length (groups (WithGroup hdl []))"
    using v by simp
  show "attrsText (WithGroup hdl []) (r\<lparr>Attrs := [(k, KindString x)]\<rparr>) =
        '': '' @ (if preformattedAttrs hdl \<noteq> [] then preformattedAttrs hdl @ '' '' else []) @
        escapedText (groupPrefix hdl @ pendingPrefix hdl @ ''.'' @ k) @ ''='' @ escapedText x"
    using attrsText_leaf [OF v', of "r\<lparr>Attrs := [(k, KindString x)]\<rparr>" k x]
    by (simp add: p)
qed

text \<open>
  On a fresh handler, \<^verbatim>\<open>WithGroup("")\<close> and a record with the attribute
  \<^verbatim>\<open>a = "1"\<close>: the attributes read \<^verbatim>\<open>: .a=1\<close>.
\<close>

theorem WithGroup_empty_name_witness:
  "groups (WithGroup defaultHandler []) = [[]] \<and>
   attrsText (WithGroup defaultHandler [])
     \<lparr>Time = zeroTime, Message = ''m'', Level = LevelInfo, PC = 0, Attrs = [(''a'', KindString ''1'')]\<rparr>
   = '': .a=1''"
proof -
  let ?r = "\<lparr>Time = zeroTime, Message = ''m'', Level = LevelInfo, PC = 0, Attrs = []\<rparr>"
  note T = WithGroup_empty_name [where hdl = defaultHandler and r = ?r and k = "''a''" and x = "''1''"]
  have v: "nOpenGroups defaultHandler \<le> length (groups defaultHandler)"
    by (simp add: defaultHandler_def)
  have e: "escapedText ''.a'' = ''.a''" "escapedText ''1'' = ''1''"
    by (simp_all add: escapedText_def needsQuoting_def isSpace_def isControl_def quoteChar_def)
  have d: "preformattedAttrs defaultHandler = []" "groupPrefix defaultHandler = []"
    "pendingPrefix defaultHandler = []" "groups defaultHandler = []"
    by (simp_all add: defaultHandler_def pendingPrefix_def)
  from T [THEN conjunct1] have 1: "groups (WithGroup defaultHandler []) = [[]]"
    by (simp add: d)
  from T [THEN conjunct2, THEN conjunct2, THEN mp, OF v, THEN conjunct2]
  have 2: "attrsText (WithGroup defaultHandler [])
     \<lparr>Time = zeroTime, Message = ''m'', Level = LevelInfo, PC = 0, Attrs = [(''a'', KindString ''1'')]\<rparr>
   = '': .a=1''"
    by (simp add: d e)
  from 1 2 show ?thesis by (rule conjI)
qed

section \<open>The handlers a program can build\<close>

lemma NewHandler_fields:
  assumes "NewHandler listen opts = Inr hdl"
  shows "nOpenGroups hdl = 0" "groups hdl = []" "preformattedAttrs hdl = []" "groupPrefix hdl = []"
  using assms
  by (auto simp: NewHandler_def Let_def split: sum.splits option.splits if_splits)

lemma WithAttrs_eq:
  "WithAttrs hdl as =
     (if nOpenGroups hdl \<le> length (groups hdl)
      then Some (hdl\<lparr>preformattedAttrs :=
                    buf (appendAttrs WriteString
                      \<lparr>h = hdl, buf = preformattedAttrs hdl, freeBuf = False,
                       sep = (if preformattedAttrs hdl \<noteq> [] then '' '' else []),
                       prefix = groupPrefix hdl @ pendingPrefix hdl\<rparr> as),
                  groupPrefix := groupPrefix hdl @ pendingPrefix hdl,
                  nOpenGroups := length (groups hdl)\<rparr>)
      else None)"
proof -
  have c: "clone hdl = hdl" by (simp add: clone_def Clip_def)
  show ?thesis
    by (simp add: WithAttrs_def c Let_def newHandleState_def newBuffer_def openGroups_eq
        appendAttrs_frame)
qed

lemma ExtendPrefix_fields [simp]:
  "groups (ExtendPrefix hdl str) = groups hdl"
  "nOpenGroups (ExtendPrefix hdl str) = nOpenGroups hdl"
  "preformattedAttrs (ExtendPrefix hdl str) = preformattedAttrs hdl"
  "groupPrefix (ExtendPrefix hdl str) = groupPrefix hdl"
  "msgPrefix (ExtendPrefix hdl str) = msgPrefix hdl @ str"
  by (simp_all add: ExtendPrefix_def clone_def Clip_def Let_def)

text \<open>
  C8. In every handler reachable from \<^verbatim>\<open>NewHandler\<close> by \<^verbatim>\<open>WithAttrs\<close>,
  \<^verbatim>\<open>WithGroup\<close> and \<^verbatim>\<open>ExtendPrefix\<close>, \<^verbatim>\<open>nOpenGroups\<close> is at most the
  length of \<^verbatim>\<open>groups\<close>. \<^verbatim>\<open>NewHandler\<close> establishes this and each of the three
  operations preserves it; on such a handler \<^verbatim>\<open>WithAttrs\<close> does not panic.
\<close>

theorem reachable_nOpenGroups:
  "(reachable hdl \<longrightarrow> nOpenGroups hdl \<le> length (groups hdl)) \<and>
   (NewHandler listen opts = Inr hdl \<longrightarrow> nOpenGroups hdl \<le> length (groups hdl)) \<and>
   (nOpenGroups hdl \<le> length (groups hdl) \<longrightarrow>
      (\<exists>h2. WithAttrs hdl as = Some h2 \<and> nOpenGroups h2 \<le> length (groups h2)) \<and>
      nOpenGroups (WithGroup hdl name) \<le> length (groups (WithGroup hdl name)) \<and>
      nOpenGroups (ExtendPrefix hdl str) \<le> length (groups (ExtendPrefix hdl str)))"
proof (intro conjI impI)
  show "nOpenGroups hdl \<le> length (groups hdl)" if "reachable hdl"
    using that
  proof (induction rule: reachable.induct)
    case (new listen opts hdl)
    then show ?case by (simp add: NewHandler_fields)
  next
    case (attrs hdl as h2)
    then show ?case by (auto simp: WithAttrs_eq split: if_splits)
  next
    case (group hdl name)
    then show ?case by simp
  next
    case (extend hdl str)
    then show ?case by simp
  qed
  show "nOpenGroups hdl \<le> length (groups hdl)" if "NewHandler listen opts = Inr hdl"
    using that by (simp add: NewHandler_fields)
  show "\<exists>h2. WithAttrs hdl as = Some h2 \<and> nOpenGroups h2 \<le> length (groups h2)"
    if "nOpenGroups hdl \<le> length (groups hdl)"
    using that by (simp add: WithAttrs_eq)
  show "nOpenGroups (WithGroup hdl name) \<le> length (groups (WithGroup hdl name))"
    if "nOpenGroups hdl \<le> length (groups hdl)"
    using that by simp
  show "nOpenGroups (ExtendPrefix hdl str) \<le> length (groups (ExtendPrefix hdl str))"
    if "nOpenGroups hdl \<le> length (groups hdl)"
    using that by simp
qed

text \<open>
  A handler built by \<^verbatim>\<open>WithGroup\<close>, \<^verbatim>\<open>WithAttrs\<close> and \<^verbatim>\<open>WithGroup\<close>
  from a fresh one, and the three operations on the fresh one.
\<close>

theorem reachable_nOpenGroups_witness:
  "reachable (WithGroup (the (WithAttrs (WithGroup defaultHandler ''g'') [(''x'', KindInt64 1)])) ''s'') \<and>
   nOpenGroups (WithGroup (the (WithAttrs (WithGroup defaultHandler ''g'') [(''x'', KindInt64 1)])) ''s'')
     \<le> length (groups (WithGroup (the (WithAttrs (WithGroup defaultHandler ''g'') [(''x'', KindInt64 1)])) ''s'')) \<and>
   nOpenGroups defaultHandler \<le> length (groups defaultHandler) \<and>
   (\<exists>h2. WithAttrs defaultHandler [(''x'', KindInt64 1)] = Some h2 \<and> nOpenGroups h2 \<le> length (groups h2)) \<and>
   nOpenGroups (WithGroup defaultHandler ''g'') \<le> length (groups (WithGroup defaultHandler ''g'')) \<and>
   nOpenGroups (ExtendPrefix defaultHandler ''p: '') \<le> length (groups (ExtendPrefix defaultHandler ''p: ''))"
proof -
  let ?h1 = "WithGroup defaultHandler ''g''"
  let ?h2 = "the (WithAttrs ?h1 [(''x'', KindInt64 1)])"
  let ?h3 = "WithGroup ?h2 ''s''"
  note T = reachable_nOpenGroups
  have n: "NewHandler (Inr 3) None = Inr defaultHandler" by (rule NewHandler_default)
  have r0: "reachable defaultHandler" using n by (rule reachable.new)
  then have r1: "reachable ?h1" by (rule reachable.group)
  have "WithAttrs ?h1 [(''x'', KindInt64 1)] = Some ?h2"
    by (simp add: WithAttrs_eq defaultHandler_def)
  with r1 have "reachable ?h2" by (rule reachable.attrs)
  then have r3: "reachable ?h3" by (rule reachable.group)
  from T [where hdl = ?h3, THEN conjunct1, THEN mp, OF r3]
  have 1: "nOpenGroups ?h3 \<le> length (groups ?h3)" .
  from T [where hdl = defaultHandler and listen = "Inr 3" and opts = None,
      THEN conjunct2, THEN conjunct1, THEN mp, OF n]
  have 2: "nOpenGroups defaultHandler \<le> length (groups defaultHandler)" .
  from T [where hdl = defaultHandler and as = "[(''x'', KindInt64 1)]" and name = "''g''"
      and str = "''p: ''", THEN conjunct2, THEN conjunct2, THEN mp, OF 2]
  have 3: "(\<exists>h2. WithAttrs defaultHandler [(''x'', KindInt64 1)] = Some h2 \<and> nOpenGroups h2 \<le> length (groups h2)) \<and>
   nOpenGroups (WithGroup defaultHandler ''g'') \<le> length (groups (WithGroup defaultHandler ''g'')) \<and>
   nOpenGroups (ExtendPrefix defaultHandler ''p: '') \<le> length (groups (ExtendPrefix defaultHandler ''p: ''))" .
  from r3 1 2 3 show ?thesis by blast
qed

section \<open>The transport and its fallback\<close>

lemma Handle_eq:
  assumes "encodeEntry hdl r (levelPrefix (Level r)) (fst (loadSuffix env cache (PC r))) = Some e"
  shows "Handle env cache hdl r =
     Some (case sendResult env e of
             None \<Rightarrow> (None, [WriteMsgUnix (sock hdl) (addr hdl) e None], snd (loadSuffix env cache (PC r)))
           | Some err \<Rightarrow>
               (fst (sendViaFileIfTooLarge env hdl err e),
                WriteMsgUnix (sock hdl) (addr hdl) e None # snd (sendViaFileIfTooLarge env hdl err e),
                snd (loadSuffix env cache (PC r))))"
  using assms by (simp add: Handle_def Let_def split_beta split: option.splits)

text \<open>
  C7. The fallback creates its file if and only if the build passes descriptors and the
  error of the send is \<^verbatim>\<open>EMSGSIZE\<close> or \<^verbatim>\<open>ENOBUFS\<close>. Any other error of the
  send is returned as it is, with no further call. An error of creating the file is
  returned as it is, and so is an error of writing to it, after the file is closed; in
  both cases no datagram is sent. Without descriptor passing the error of the send is
  returned as it is. \<^verbatim>\<open>Handle\<close> sends the entry once, returns nil if that succeeds
  and the result of the fallback if it fails.
\<close>

theorem sendViaFileIfTooLarge_fallback:
  "(CreateNonlinkedFile \<in> set (snd (sendViaFileIfTooLarge env hdl err b)) \<longleftrightarrow>
      LargeMessageSupport env \<and> (errorsIs err EMSGSIZE \<or> errorsIs err ENOBUFS)) \<and>
   (\<not> (errorsIs err EMSGSIZE \<or> errorsIs err ENOBUFS) \<longrightarrow>
      sendViaFileIfTooLarge env hdl err b = (Some err, [])) \<and>
   (LargeMessageSupport env \<and> (errorsIs err EMSGSIZE \<or> errorsIs err ENOBUFS) \<and>
    createResult env = Inl e1 \<longrightarrow>
      sendViaFileIfTooLarge env hdl err b = (Some e1, [CreateNonlinkedFile])) \<and>
   (LargeMessageSupport env \<and> (errorsIs err EMSGSIZE \<or> errorsIs err ENOBUFS) \<and>
    createResult env = Inr f \<and> writeResult env f b = Some e2 \<longrightarrow>
      sendViaFileIfTooLarge env hdl err b =
        (Some e2, [CreateNonlinkedFile, FileWrite f b, FileClose f])) \<and>
   (\<not> LargeMessageSupport env \<longrightarrow> sendViaFileIfTooLarge env hdl err b = (Some err, [])) \<and>
   (nOpenGroups hdl \<le> length (groups hdl) \<longrightarrow>
      (\<exists>e cache'.
         (sendResult env e = None \<longrightarrow>
            Handle env cache hdl r =
              Some (None, [WriteMsgUnix (sock hdl) (addr hdl) e None], cache')) \<and>
         (\<forall>err. sendResult env e = Some err \<longrightarrow>
            Handle env cache hdl r =
              Some (fst (sendViaFileIfTooLarge env hdl err e),
                    WriteMsgUnix (sock hdl) (addr hdl) e None #
                      snd (sendViaFileIfTooLarge env hdl err e),
                    cache'))))"
proof (intro conjI impI)
  show "CreateNonlinkedFile \<in> set (snd (sendViaFileIfTooLarge env hdl err b)) \<longleftrightarrow>
      LargeMessageSupport env \<and> (errorsIs err EMSGSIZE \<or> errorsIs err ENOBUFS)"
    by (auto simp: sendViaFileIfTooLarge_def sendViaFileIfTooLarge_yes_def
        sendViaFileIfTooLarge_no_def split: sum.splits option.splits)
  show "sendViaFileIfTooLarge env hdl err b = (Some err, [])"
    if "\<not> (errorsIs err EMSGSIZE \<or> errorsIs err ENOBUFS)"
    using that
    by (simp add: sendViaFileIfTooLarge_def sendViaFileIfTooLarge_yes_def
        sendViaFileIfTooLarge_no_def)
  show "sendViaFileIfTooLarge env hdl err b = (Some e1, [CreateNonlinkedFile])"
    if "LargeMessageSupport env \<and> (errorsIs err EMSGSIZE \<or> errorsIs err ENOBUFS) \<and>
        createResult env = Inl e1"
    using that by (auto simp: sendViaFileIfTooLarge_def sendViaFileIfTooLarge_yes_def)
  show "sendViaFileIfTooLarge env hdl err b =
        (Some e2, [CreateNonlinkedFile, FileWrite f b, FileClose f])"
    if "LargeMessageSupport env \<and> (errorsIs err EMSGSIZE \<or> errorsIs err ENOBUFS) \<and>
        createResult env = Inr f \<and> writeResult env f b = Some e2"
    using that by (auto simp: sendViaFileIfTooLarge_def sendViaFileIfTooLarge_yes_def)
  show "sendViaFileIfTooLarge env hdl err b = (Some err, [])" if "\<not> LargeMessageSupport env"
    using that by (simp add: sendViaFileIfTooLarge_def sendViaFileIfTooLarge_no_def)
  show "\<exists>e cache'.
         (sendResult env e = None \<longrightarrow>
            Handle env cache hdl r =
              Some (None, [WriteMsgUnix (sock hdl) (addr hdl) e None], cache')) \<and>
         (\<forall>err. sendResult env e = Some err \<longrightarrow>
            Handle env cache hdl r =
              Some (fst (sendViaFileIfTooLarge env hdl err e),
                    WriteMsgUnix (sock hdl) (addr hdl) e None #
                      snd (sendViaFileIfTooLarge env hdl err e),
                    cache'))"
    if v: "nOpenGroups hdl \<le> length (groups hdl)"
  proof -
    obtain e where e: "encodeEntry hdl r (levelPrefix (Level r)) (fst (loadSuffix env cache (PC r))) = Some e"
      using encodeEntry_levelPrefix [OF v, of r "Level r"] by blast
    from Handle_eq [OF e] show ?thesis by (intro exI [of _ e] exI [of _ "snd (loadSuffix env cache (PC r))"]) auto
  qed
qed

text \<open>
  A wrapped \<^verbatim>\<open>EMSGSIZE\<close> starts the fallback; errno 111 is returned untouched; a
  failing creation and a failing write give their own errors and no datagram; the build
  without descriptor passing returns \<^verbatim>\<open>EMSGSIZE\<close>; a send that succeeds is the only
  call.
\<close>

theorem sendViaFileIfTooLarge_fallback_witness:
  "CreateNonlinkedFile \<in> set (snd (sendViaFileIfTooLarge quietEnv defaultHandler
      (Wrapped ''write unixgram'' (Errno EMSGSIZE)) ''e'')) \<and>
   sendViaFileIfTooLarge quietEnv defaultHandler (Errno (OtherErrno 111)) ''e'' =
     (Some (Errno (OtherErrno 111)), []) \<and>
   sendViaFileIfTooLarge (quietEnv\<lparr>createResult := Inl (Errno (OtherErrno 24))\<rparr>) defaultHandler
      (Errno ENOBUFS) ''e'' = (Some (Errno (OtherErrno 24)), [CreateNonlinkedFile]) \<and>
   sendViaFileIfTooLarge (quietEnv\<lparr>writeResult := (\<lambda>f b. Some (Errno (OtherErrno 28)))\<rparr>)
      defaultHandler (Errno EMSGSIZE) ''e'' =
     (Some (Errno (OtherErrno 28)), [CreateNonlinkedFile, FileWrite 5 ''e'', FileClose 5]) \<and>
   sendViaFileIfTooLarge (quietEnv\<lparr>LargeMessageSupport := False\<rparr>) defaultHandler
      (Errno EMSGSIZE) ''e'' = (Some (Errno EMSGSIZE), []) \<and>
   (\<exists>e cache'.
      Handle quietEnv Map.empty defaultHandler
        \<lparr>Time = zeroTime, Message = ''m'', Level = LevelInfo, PC = 0, Attrs = []\<rparr> =
      Some (None, [WriteMsgUnix 3 defaultSocket e None], cache'))"
proof -
  note T = sendViaFileIfTooLarge_fallback
  have 1: "CreateNonlinkedFile \<in> set (snd (sendViaFileIfTooLarge quietEnv defaultHandler
      (Wrapped ''write unixgram'' (Errno EMSGSIZE)) ''e''))"
    using T [where env = quietEnv and hdl = defaultHandler
        and err = "Wrapped ''write unixgram'' (Errno EMSGSIZE)" and b = "''e''", THEN conjunct1]
    by (simp add: quietEnv_def)
  have h2: "\<not> (errorsIs (Errno (OtherErrno 111)) EMSGSIZE \<or> errorsIs (Errno (OtherErrno 111)) ENOBUFS)"
    by simp
  from T [where env = quietEnv and hdl = defaultHandler and err = "Errno (OtherErrno 111)"
      and b = "''e''", THEN conjunct2, THEN conjunct1, THEN mp, OF h2]
  have 2: "sendViaFileIfTooLarge quietEnv defaultHandler (Errno (OtherErrno 111)) ''e'' =
     (Some (Errno (OtherErrno 111)), [])" .
  let ?e3 = "quietEnv\<lparr>createResult := Inl (Errno (OtherErrno 24))\<rparr>"
  have h3: "LargeMessageSupport ?e3 \<and> (errorsIs (Errno ENOBUFS) EMSGSIZE \<or> errorsIs (Errno ENOBUFS) ENOBUFS) \<and>
      createResult ?e3 = Inl (Errno (OtherErrno 24))"
    by (simp add: quietEnv_def)
  from T [where env = ?e3 and hdl = defaultHandler and err = "Errno ENOBUFS" and b = "''e''"
      and ?e1.0 = "Errno (OtherErrno 24)",
      THEN conjunct2, THEN conjunct2, THEN conjunct1, THEN mp, OF h3]
  have 3: "sendViaFileIfTooLarge ?e3 defaultHandler (Errno ENOBUFS) ''e'' =
      (Some (Errno (OtherErrno 24)), [CreateNonlinkedFile])" .
  let ?e4 = "quietEnv\<lparr>writeResult := (\<lambda>f b. Some (Errno (OtherErrno 28)))\<rparr>"
  have h4: "LargeMessageSupport ?e4 \<and> (errorsIs (Errno EMSGSIZE) EMSGSIZE \<or> errorsIs (Errno EMSGSIZE) ENOBUFS) \<and>
      createResult ?e4 = Inr 5 \<and> writeResult ?e4 5 ''e'' = Some (Errno (OtherErrno 28))"
    by (simp add: quietEnv_def)
  from T [where env = ?e4 and hdl = defaultHandler and err = "Errno EMSGSIZE" and b = "''e''"
      and f = 5 and ?e2.0 = "Errno (OtherErrno 28)",
      THEN conjunct2, THEN conjunct2, THEN conjunct2, THEN conjunct1, THEN mp, OF h4]
  have 4: "sendViaFileIfTooLarge ?e4 defaultHandler (Errno EMSGSIZE) ''e'' =
     (Some (Errno (OtherErrno 28)), [CreateNonlinkedFile, FileWrite 5 ''e'', FileClose 5])" .
  let ?e5 = "quietEnv\<lparr>LargeMessageSupport := False\<rparr>"
  have h5: "\<not> LargeMessageSupport ?e5" by simp
  from T [where env = ?e5 and hdl = defaultHandler and err = "Errno EMSGSIZE" and b = "''e''",
      THEN conjunct2, THEN conjunct2, THEN conjunct2, THEN conjunct2, THEN conjunct1, THEN mp, OF h5]
  have 5: "sendViaFileIfTooLarge ?e5 defaultHandler (Errno EMSGSIZE) ''e'' = (Some (Errno EMSGSIZE), [])" .
  have v: "nOpenGroups defaultHandler \<le> length (groups defaultHandler)"
    by (simp add: defaultHandler_def)
  have s: "sock defaultHandler = 3" "addr defaultHandler = defaultSocket"
    by (simp_all add: defaultHandler_def)
  have q: "sendResult quietEnv e = None" for e by (simp add: quietEnv_def)
  from T [where env = quietEnv and hdl = defaultHandler and cache = Map.empty
      and r = "\<lparr>Time = zeroTime, Message = ''m'', Level = LevelInfo, PC = 0, Attrs = []\<rparr>",
      THEN conjunct2, THEN conjunct2, THEN conjunct2, THEN conjunct2, THEN conjunct2, THEN mp, OF v]
  have 6: "\<exists>e cache'.
      Handle quietEnv Map.empty defaultHandler
        \<lparr>Time = zeroTime, Message = ''m'', Level = LevelInfo, PC = 0, Attrs = []\<rparr> =
      Some (None, [WriteMsgUnix 3 defaultSocket e None], cache')"
    unfolding s q by blast
  from 1 2 3 4 5 6 show ?thesis by blast
qed

section \<open>Facts about slices\<close>

text \<open>
  Without the clip of \<^verbatim>\<open>clone\<close> an \<^verbatim>\<open>append\<close> to the buffer of the example handler
  would write into the spare bytes of its parent's array.
\<close>

lemma goAppend_unclipped_example:
  "cells (fst (goAppend doubling (CHR 0x00) spareStore (preformattedAttrs spareHandler) '' x=1'')) 0
     = ''p=0 x=1'' @ [CHR 0x00] \<and>
   cells spareStore 0 = ''p=0'' @ replicate 5 (CHR 0x00)"
  by (simp add: goAppend_def spareStore_def spareHandler_def Let_def)

text \<open>
  An \<^verbatim>\<open>append\<close> to an owned buffer leaves it owned, leaves the earlier store untouched
  and adds the elements to those the slice holds.
\<close>

lemma untouched_refl [simp]: "untouched m m"
  by (simp add: untouched_def)

lemma untouched_trans: "untouched m0 m1 \<Longrightarrow> untouched m1 m2 \<Longrightarrow> untouched m0 m2"
  by (auto simp: untouched_def)

lemma elems_sliceClip [simp]: "elems m (sliceClip s) = elems m s"
  by (simp add: elems_def sliceClip_def)

lemma wfSlice_sliceClip: "wfSlice m s \<Longrightarrow> wfSlice m (sliceClip s)"
  by (auto simp: wfSlice_def sliceClip_def)

lemma length_elems: "wfSlice m s \<Longrightarrow> length (elems m s) = len s"
  by (simp add: wfSlice_def elems_def)

lemma elems_untouched:
  assumes "wfSlice m0 s" and "untouched m0 m"
  shows "elems m s = elems m0 s \<and> wfSlice m s"
proof (cases "cap s = 0")
  case True
  with assms(1) have "len s = 0" by (simp add: wfSlice_def)
  with True show ?thesis by (simp add: elems_def wfSlice_def)
next
  case False
  with assms(1) have "arr s < nxt m0" by (simp add: wfSlice_def)
  with assms(2) have "cells m (arr s) = cells m0 (arr s)" "arr s < nxt m"
    by (auto simp: untouched_def)
  with assms(1) show ?thesis by (simp add: elems_def wfSlice_def)
qed

lemma goAppend_owned:
  assumes "owned m0 (m, s)"
  shows "owned m0 (goAppend grow z m s xs) \<and>
         elems (fst (goAppend grow z m s xs)) (snd (goAppend grow z m s xs)) = elems m s @ xs"
proof -
  from assms have wf: "len s \<le> cap s" "cap s \<le> length (cells m (arr s))"
    and fr: "cap s = 0 \<or> arr s < nxt m"
    and ut: "untouched m0 m" and ow: "cap s = len s \<or> nxt m0 \<le> arr s"
    by (simp_all add: owned_def wfSlice_def)
  let ?n = "len s + length xs"
  show ?thesis
  proof (cases "?n \<le> cap s")
    case True
    let ?c = "take (len s) (cells m (arr s)) @ xs @ drop ?n (cells m (arr s))"
    have g: "goAppend grow z m s xs = (m\<lparr>cells := (cells m)(arr s := ?c)\<rparr>, s\<lparr>len := ?n\<rparr>)"
      using True by (simp add: goAppend_def Let_def)
    have lc: "length ?c = length (cells m (arr s))"
      using True wf by simp
    have same: "?c = cells m (arr s)" if "xs = []"
      using that by simp
    have ut': "untouched m0 (m\<lparr>cells := (cells m)(arr s := ?c)\<rparr>)"
    proof (cases "xs = []")
      case True
      with same ut show ?thesis by (simp add: untouched_def)
    next
      case False
      with \<open>?n \<le> cap s\<close> ow have "nxt m0 \<le> arr s" by auto
      with ut show ?thesis by (auto simp: untouched_def)
    qed
    have ow': "cap s = ?n \<or> nxt m0 \<le> arr s"
      using ow True by auto
    have el: "elems (m\<lparr>cells := (cells m)(arr s := ?c)\<rparr>) (s\<lparr>len := ?n\<rparr>) = elems m s @ xs"
      using wf by (simp add: elems_def)
    show ?thesis
      unfolding g using True wf fr ut' ow' el lc
      by (simp add: owned_def wfSlice_def)
  next
    case False
    let ?cp = "max ?n (grow (cap s) ?n)"
    let ?c = "take (len s) (cells m (arr s)) @ xs @ replicate (?cp - ?n) z"
    have g: "goAppend grow z m s xs =
        (\<lparr>cells = (cells m)(nxt m := ?c), nxt = Suc (nxt m)\<rparr>, \<lparr>arr = nxt m, len = ?n, cap = ?cp\<rparr>)"
      using False by (simp add: goAppend_def Let_def)
    have lc: "length ?c = ?cp" using wf by simp
    have ut': "untouched m0 \<lparr>cells = (cells m)(nxt m := ?c), nxt = Suc (nxt m)\<rparr>"
      using ut by (auto simp: untouched_def)
    have el: "elems \<lparr>cells = (cells m)(nxt m := ?c), nxt = Suc (nxt m)\<rparr>
        \<lparr>arr = nxt m, len = ?n, cap = ?cp\<rparr> = elems m s @ xs"
      using wf by (simp add: elems_def)
    have "nxt m0 \<le> nxt m" using ut by (simp add: untouched_def)
    then show ?thesis
      unfolding g using ut' el lc
      by (simp add: owned_def wfSlice_def)
  qed
qed

section \<open>The derivations on slices and on sequences\<close>

text \<open>
  Read through \<open>view\<close>, each derivation on slices is the derivation on sequences of
  the sections above, and it leaves every array of the store it started from untouched.
\<close>

lemma simulates_bufferWrite:
  "simulates (owned m0) (\<lambda>b. elems (fst b) (snd b)) (bufferWrite grow) WriteString"
  unfolding simulates_def
proof (intro allI impI)
  fix b :: "char store \<times> slice" and x
  assume "owned m0 b"
  then have "owned m0 (fst b, snd b)" by simp
  from goAppend_owned [OF this, of grow "CHR 0x00" x]
  show "owned m0 (bufferWrite grow b x) \<and>
      elems (fst (bufferWrite grow b x)) (snd (bufferWrite grow b x)) =
      WriteString (elems (fst b) (snd b)) x"
    by (simp add: bufferWrite_def WriteString_def)
qed

lemma view_untouched:
  assumes "wfHandler bm sm hdl" and "untouched bm bm'" and "untouched sm sm'"
  shows "view bm' sm' hdl = view bm sm hdl \<and> wfHandler bm' sm' hdl"
  using assms elems_untouched [of bm "preformattedAttrs hdl" bm']
    elems_untouched [of sm "groups hdl" sm']
  by (simp add: view_def wfHandler_def)

lemma view_clone_store: "view bm sm (clone_store hdl) = view bm sm hdl"
  by (simp add: view_def clone_store_def)

lemma owned_clip:
  "wfSlice m s \<Longrightarrow> owned m (m, sliceClip s)"
  by (simp add: owned_def wfSlice_sliceClip) (simp add: sliceClip_def)

lemma WithAttrs_store_eq:
  assumes wf: "wfHandler bm sm hdl"
  shows "WithAttrs_store grow bm sm hdl as =
      (if nOpenGroups hdl \<le> len (groups hdl)
       then (let state = appendAttrs (bufferWrite grow) (attrsState bm sm hdl) as
             in Some (fst (buf state),
                  hdl\<lparr>preformattedAttrs := snd (buf state), groups := sliceClip (groups hdl),
                       groupPrefix := prefix state, nOpenGroups := len (groups hdl)\<rparr>))
       else None)"
proof -
  let ?v = "view bm sm hdl"
  from wf have wg: "wfSlice sm (groups hdl)" by (simp add: wfHandler_def)
  have lg: "length (groups ?v) = len (groups hdl)"
    using wg by (simp add: view_def length_elems)
  have nv: "nOpenGroups ?v = nOpenGroups hdl" "groupPrefix ?v = groupPrefix hdl"
    by (simp_all add: view_def)
  have c: "preformattedAttrs (clone_store hdl) = sliceClip (preformattedAttrs hdl)"
    "groups (clone_store hdl) = sliceClip (groups hdl)"
    "len (sliceClip (preformattedAttrs hdl)) = len (preformattedAttrs hdl)"
    "len (sliceClip (groups hdl)) = len (groups hdl)"
    by (simp_all add: clone_store_def sliceClip_def)
  have u: "(clone_store hdl)\<lparr>preformattedAttrs := x, groupPrefix := y, nOpenGroups := z\<rparr> =
      hdl\<lparr>preformattedAttrs := x, groups := sliceClip (groups hdl), groupPrefix := y,
          nOpenGroups := z\<rparr>" for x y z
    by (simp add: clone_store_def)
  show ?thesis
    by (simp add: WithAttrs_store_def Let_def view_clone_store openGroups_eq newHandleState_def
        newBuffer_def attrsState_def lg nv c u)
qed

lemma WithAttrs_store_refines:
  assumes wf: "wfHandler bm sm hdl"
  shows "(nOpenGroups hdl \<le> len (groups hdl) \<longrightarrow>
          (\<exists>bm' h2. WithAttrs_store grow bm sm hdl as = Some (bm', h2) \<and>
             WithAttrs (view bm sm hdl) as = Some (view bm' sm h2) \<and>
             untouched bm bm' \<and> wfHandler bm' sm h2 \<and>
             groups h2 = sliceClip (groups hdl) \<and>
             owned bm (bm', preformattedAttrs h2) \<and>
             preformattedAttrs h2 =
               snd (buf (appendAttrs (bufferWrite grow) (attrsState bm sm hdl) as)))) \<and>
         (\<not> nOpenGroups hdl \<le> len (groups hdl) \<longrightarrow>
            WithAttrs_store grow bm sm hdl as = None \<and> WithAttrs (view bm sm hdl) as = None)"
proof -
  let ?v = "view bm sm hdl"
  from wf have wp: "wfSlice bm (preformattedAttrs hdl)" and wg: "wfSlice sm (groups hdl)"
    by (simp_all add: wfHandler_def)
  have lg: "length (groups ?v) = len (groups hdl)"
    using wg by (simp add: view_def length_elems)
  have lp: "preformattedAttrs ?v \<noteq> [] \<longleftrightarrow> 0 < len (preformattedAttrs hdl)"
  proof -
    have "preformattedAttrs ?v = elems bm (preformattedAttrs hdl)" by (simp add: view_def)
    then have "length (preformattedAttrs ?v) = len (preformattedAttrs hdl)"
      using length_elems [OF wp] by simp
    then show ?thesis by (metis length_greater_0_conv)
  qed
  have nv: "nOpenGroups ?v = nOpenGroups hdl" "groupPrefix ?v = groupPrefix hdl"
    by (simp_all add: view_def)
  define s0 where "s0 = attrsState bm sm hdl"
  let ?f = "\<lambda>b :: char store \<times> slice. elems (fst b) (snd b)"
  note e = WithAttrs_store_eq [OF wf, of grow as, folded s0_def]
  have i0: "owned bm (buf s0)" using owned_clip [OF wp] by (simp add: s0_def attrsState_def)
  note sim = mapBuf_appendAttrs [OF simulates_bufferWrite i0, of grow as]
  have m0: "mapBuf ?f s0 = \<lparr>h = ?v, buf = preformattedAttrs ?v, freeBuf = False,
           sep = (if preformattedAttrs ?v \<noteq> [] then '' '' else []),
           prefix = groupPrefix ?v @ pendingPrefix ?v\<rparr>"
    by (simp add: mapBuf_def s0_def attrsState_def lp nv) (simp add: view_def)
  let ?st = "appendAttrs (bufferWrite grow) s0 as"
  have pf: "prefix ?st = groupPrefix hdl @ pendingPrefix ?v"
    using appendAttrs_frame [of "bufferWrite grow" s0 as] by (simp add: s0_def attrsState_def)
  have bufeq: "elems (fst (buf ?st)) (snd (buf ?st)) =
      buf (appendAttrs WriteString (mapBuf ?f s0) as)"
    using arg_cong [OF sim [THEN conjunct2], of buf] by simp
  have ow: "owned bm (fst (buf ?st), snd (buf ?st))" using sim [THEN conjunct1] by simp
  then have ut: "untouched bm (fst (buf ?st))" and ws: "wfSlice (fst (buf ?st)) (snd (buf ?st))"
    by (simp_all add: owned_def)
  show ?thesis
  proof (intro conjI impI)
    assume v: "nOpenGroups hdl \<le> len (groups hdl)"
    let ?h2 = "hdl\<lparr>preformattedAttrs := snd (buf ?st), groups := sliceClip (groups hdl),
                       groupPrefix := prefix ?st, nOpenGroups := len (groups hdl)\<rparr>"
    have 1: "WithAttrs_store grow bm sm hdl as = Some (fst (buf ?st), ?h2)"
      using v by (simp add: e Let_def)
    have w: "WithAttrs ?v as =
        Some (?v\<lparr>preformattedAttrs := buf (appendAttrs WriteString (mapBuf ?f s0) as),
                  groupPrefix := groupPrefix ?v @ pendingPrefix ?v,
                  nOpenGroups := length (groups ?v)\<rparr>)"
      using v unfolding m0 by (simp add: WithAttrs_eq lg nv)
    have vw: "view (fst (buf ?st)) sm ?h2 =
        ?v\<lparr>preformattedAttrs := elems (fst (buf ?st)) (snd (buf ?st)),
            groupPrefix := prefix ?st, nOpenGroups := len (groups hdl)\<rparr>"
      by (simp add: view_def)
    have 2: "WithAttrs ?v as = Some (view (fst (buf ?st)) sm ?h2)"
      unfolding w vw by (simp add: bufeq pf lg nv)
    have 3: "wfHandler (fst (buf ?st)) sm ?h2"
      using ws wg by (simp add: wfHandler_def wfSlice_sliceClip)
    from 1 2 3 ut ow
    show "\<exists>bm' h2. WithAttrs_store grow bm sm hdl as = Some (bm', h2) \<and>
             WithAttrs (view bm sm hdl) as = Some (view bm' sm h2) \<and>
             untouched bm bm' \<and> wfHandler bm' sm h2 \<and>
             groups h2 = sliceClip (groups hdl) \<and>
             owned bm (bm', preformattedAttrs h2) \<and>
             preformattedAttrs h2 =
               snd (buf (appendAttrs (bufferWrite grow) (attrsState bm sm hdl) as))"
      by (simp add: s0_def)
  next
    assume "\<not> nOpenGroups hdl \<le> len (groups hdl)"
    then show "WithAttrs_store grow bm sm hdl as = None" by (simp add: e)
  next
    assume "\<not> nOpenGroups hdl \<le> len (groups hdl)"
    then show "WithAttrs (view bm sm hdl) as = None" by (simp add: WithAttrs_eq lg nv)
  qed
qed

lemma WithGroup_store_refines:
  assumes wf: "wfHandler bm sm hdl"
  shows "view bm (fst (WithGroup_store grow sm hdl name)) (snd (WithGroup_store grow sm hdl name))
           = WithGroup (view bm sm hdl) name \<and>
         untouched sm (fst (WithGroup_store grow sm hdl name)) \<and>
         wfHandler bm (fst (WithGroup_store grow sm hdl name)) (snd (WithGroup_store grow sm hdl name))"
proof -
  from wf have wp: "wfSlice bm (preformattedAttrs hdl)" and wg: "wfSlice sm (groups hdl)"
    by (simp_all add: wfHandler_def)
  let ?g = "goAppend grow [] sm (sliceClip (groups hdl)) [name]"
  have e: "WithGroup_store grow sm hdl name =
      (fst ?g, hdl\<lparr>preformattedAttrs := sliceClip (preformattedAttrs hdl), groups := snd ?g\<rparr>)"
    by (simp add: WithGroup_store_def clone_store_def Let_def split_beta)
  from goAppend_owned [OF owned_clip [OF wg], of grow "[]" "[name]"]
  have ow: "owned sm ?g" and el: "elems (fst ?g) (snd ?g) = elems sm (groups hdl) @ [name]"
    by simp_all
  from ow have ut: "untouched sm (fst ?g)" and ws: "wfSlice (fst ?g) (snd ?g)"
    by (simp_all add: owned_def)
  show ?thesis
    unfolding e using ut ws el wp
    by (simp add: view_def WithGroup_def clone_def Clip_def wfHandler_def wfSlice_sliceClip)
qed

lemma ExtendPrefix_store_refines:
  "view bm sm (ExtendPrefix_store hdl str) = ExtendPrefix (view bm sm hdl) str \<and>
   (wfHandler bm sm hdl \<longrightarrow> wfHandler bm sm (ExtendPrefix_store hdl str))"
  by (simp add: view_def ExtendPrefix_store_def ExtendPrefix_def clone_store_def clone_def
      Clip_def wfHandler_def wfSlice_sliceClip Let_def)

lemma FormatInt_small [simp]: "FormatInt 1 = ''1''" "FormatInt 2 = ''2''"
  by (simp_all add: FormatInt_def digitsOf.simps)

lemma escapedText_digit [simp]: "escapedText ''1'' = ''1''" "escapedText ''2'' = ''2''"
  by (simp_all add: escapedText_def needsQuoting_def isSpace_def isControl_def quoteChar_def)

lemma appendAttr_int:
  "appendAttr wr s (k, KindInt64 i) = appendString wr (appendKey wr s k) (FormatInt i)"
  by (simp add: appendAttr_leaf isEmptyAttr_iff)

lemma WithAttrs_int:
  assumes "nOpenGroups hdl \<le> length (groups hdl)"
  shows "WithAttrs hdl [(k, KindInt64 i)] =
     Some (hdl\<lparr>preformattedAttrs :=
                 preformattedAttrs hdl @ (if preformattedAttrs hdl \<noteq> [] then '' '' else []) @
                 escapedText (groupPrefix hdl @ pendingPrefix hdl @ k) @ ''='' @
                 escapedText (FormatInt i),
               groupPrefix := groupPrefix hdl @ pendingPrefix hdl,
               nOpenGroups := length (groups hdl)\<rparr>)"
  using assms by (simp add: WithAttrs_eq appendAttr_int WriteString_def)

lemma attrsText_no_attrs:
  assumes "nOpenGroups hdl \<le> length (groups hdl)" and "Attrs r = []"
  shows "attrsText hdl r =
     (if preformattedAttrs hdl \<noteq> [] then '': '' @ preformattedAttrs hdl else [])"
  using assms
  by (simp add: attrsText_def appendNonBuiltIns_def openGroups_eq Let_def newHandleState_def
      newBuffer_def WriteString_def)

lemma goAppend_fresh:
  assumes "owned m0 b" and "xs \<noteq> []"
  shows "nxt m0 \<le> arr (snd (goAppend grow z (fst b) (snd b) xs))"
proof (cases "len (snd b) + length xs \<le> cap (snd b)")
  case True
  with assms(2) have "cap (snd b) \<noteq> len (snd b)" by auto
  with assms(1) have "nxt m0 \<le> arr (snd b)" by (simp add: owned_def)
  with True show ?thesis by (simp add: goAppend_def Let_def)
next
  case False
  from assms(1) have "nxt m0 \<le> nxt (fst b)" by (simp add: owned_def untouched_def)
  with False show ?thesis by (simp add: goAppend_def Let_def)
qed

lemma digitsOf_nonempty: "digitsOf n \<noteq> []"
  by (subst digitsOf.simps) simp

lemma FormatInt_nonempty: "FormatInt i \<noteq> []"
  by (simp add: FormatInt_def digitsOf_nonempty)

lemma escapedText_nonempty: "str \<noteq> [] \<Longrightarrow> escapedText str \<noteq> []"
  by (simp add: escapedText_def Quote_def)

lemma attrsState_int_fresh:
  assumes wf: "wfHandler bm sm hdl"
  shows "nxt bm \<le> arr (snd (buf (appendAttrs (bufferWrite grow) (attrsState bm sm hdl)
            [(k, KindInt64 i)])))"
proof -
  let ?s0 = "attrsState bm sm hdl"
  from wf have wp: "wfSlice bm (preformattedAttrs hdl)" by (simp add: wfHandler_def)
  have i0: "owned bm (buf ?s0)" using owned_clip [OF wp] by (simp add: attrsState_def)
  from mapBuf_appendKey [OF simulates_bufferWrite i0, of grow k]
  have ik: "owned bm (buf (appendKey (bufferWrite grow) ?s0 k))" by simp
  have "buf (appendAttrs (bufferWrite grow) ?s0 [(k, KindInt64 i)]) =
      bufferWrite grow (buf (appendKey (bufferWrite grow) ?s0 k)) (escapedText (FormatInt i))"
    by (simp add: appendAttr_int)
  then show ?thesis
    using goAppend_fresh [OF ik escapedText_nonempty [OF FormatInt_nonempty], of grow "CHR 0x00" i]
    by (simp add: bufferWrite_def)
qed

text \<open>
  C6, as the code has it. For every handler \<open>A\<close> that is well formed in the stores
  and whose counter of open groups is within its group list:
  \<^verbatim>\<open>B = A.WithAttrs({x: 1})\<close> and \<^verbatim>\<open>C = B.WithAttrs({y: 2})\<close> both return. Every
  array that existed before either derivation is as it was after it, so that every field of
  \<open>A\<close> reads after both as before, and every field of \<open>B\<close> after the second as
  before it; the buffers of \<open>B\<close> and of \<open>C\<close> are copies, in arrays allocated by
  their derivation. The group lists are not copies: that of \<open>B\<close> and that of
  \<open>C\<close> are the slice of \<open>A\<close> clipped to its length, in the array of \<open>A\<close>,
  and hold the names \<open>A\<close> holds; the derivations write no array of strings. The buffer of
  \<open>C\<close> is that of \<open>A\<close> followed by the field \<^verbatim>\<open>x=1\<close> and then the field
  \<^verbatim>\<open>y=2\<close>, separated by one space, the keys under the prefix of the groups
  \<open>A\<close> has open; a record without attributes handled by \<open>C\<close> has exactly that
  buffer as its attributes, which is \<^verbatim>\<open>x=1 y=2\<close> when \<open>A\<close> has no bound
  attributes and no group to open.
\<close>

theorem WithAttrs_twice:
  assumes wf: "wfHandler bm sm A" and v: "nOpenGroups A \<le> len (groups A)"
  shows "\<exists>bm1 B bm2 C.
     WithAttrs_store grow bm sm A [(''x'', KindInt64 1)] = Some (bm1, B) \<and>
     WithAttrs_store grow bm1 sm B [(''y'', KindInt64 2)] = Some (bm2, C) \<and>
     untouched bm bm1 \<and> untouched bm1 bm2 \<and> untouched bm bm2 \<and>
     view bm1 sm A = view bm sm A \<and> view bm2 sm A = view bm sm A \<and>
     view bm2 sm B = view bm1 sm B \<and>
     nxt bm \<le> arr (preformattedAttrs B) \<and> nxt bm1 \<le> arr (preformattedAttrs C) \<and>
     groups B = sliceClip (groups A) \<and> groups C = sliceClip (groups A) \<and>
     arr (groups B) = arr (groups A) \<and> arr (groups C) = arr (groups A) \<and>
     groups (view bm1 sm B) = groups (view bm sm A) \<and>
     groups (view bm2 sm C) = groups (view bm sm A) \<and>
     preformattedAttrs (view bm1 sm B) =
       preformattedAttrs (view bm sm A) @
       (if preformattedAttrs (view bm sm A) \<noteq> [] then '' '' else []) @
       escapedText (groupPrefix A @ pendingPrefix (view bm sm A) @ ''x'') @ ''=1'' \<and>
     preformattedAttrs (view bm2 sm C) =
       preformattedAttrs (view bm sm A) @
       (if preformattedAttrs (view bm sm A) \<noteq> [] then '' '' else []) @
       escapedText (groupPrefix A @ pendingPrefix (view bm sm A) @ ''x'') @ ''=1 '' @
       escapedText (groupPrefix A @ pendingPrefix (view bm sm A) @ ''y'') @ ''=2'' \<and>
     (Attrs r = [] \<longrightarrow>
        attrsText (view bm2 sm C) r = '': '' @ preformattedAttrs (view bm2 sm C)) \<and>
     (Attrs r = [] \<and> groupPrefix A = [] \<and> nOpenGroups A = len (groups A) \<and>
      len (preformattedAttrs A) = 0 \<longrightarrow>
        attrsText (view bm2 sm C) r = '': x=1 y=2'')"
proof -
  let ?vA = "view bm sm A"
  let ?P = "groupPrefix A @ pendingPrefix ?vA"
  have lg: "length (groups ?vA) = len (groups A)"
    using wf by (simp add: view_def wfHandler_def length_elems)
  have nA: "nOpenGroups ?vA = nOpenGroups A" "groupPrefix ?vA = groupPrefix A"
    by (simp_all add: view_def)
  have vA: "nOpenGroups ?vA \<le> length (groups ?vA)" using v by (simp add: lg nA)
  from WithAttrs_store_refines [OF wf, of grow "[(''x'', KindInt64 1)]", THEN conjunct1, THEN mp, OF v]
  obtain bm1 B where
    b1: "WithAttrs_store grow bm sm A [(''x'', KindInt64 1)] = Some (bm1, B)"
    and b2: "WithAttrs ?vA [(''x'', KindInt64 1)] = Some (view bm1 sm B)"
    and b3: "untouched bm bm1" and b4: "wfHandler bm1 sm B"
    and b5: "groups B = sliceClip (groups A)"
    and b6: "preformattedAttrs B =
        snd (buf (appendAttrs (bufferWrite grow) (attrsState bm sm A) [(''x'', KindInt64 1)]))"
    by blast
  let ?vB = "view bm1 sm B"
  from b2 have vBeq: "?vB = ?vA\<lparr>preformattedAttrs :=
                 preformattedAttrs ?vA @ (if preformattedAttrs ?vA \<noteq> [] then '' '' else []) @
                 escapedText (?P @ ''x'') @ ''=1'',
               groupPrefix := ?P, nOpenGroups := length (groups ?vA)\<rparr>"
    by (simp add: WithAttrs_int [OF vA] nA)
  have nB: "nOpenGroups B = len (groups B)"
  proof -
    have "nOpenGroups ?vB = length (groups ?vB)" by (subst (1 2) vBeq) simp
    moreover have "length (groups ?vB) = len (groups B)"
      using b4 by (simp add: view_def wfHandler_def length_elems)
    ultimately show ?thesis by (simp add: view_def)
  qed
  then have vB': "nOpenGroups B \<le> len (groups B)" by simp
  from WithAttrs_store_refines [OF b4, of grow "[(''y'', KindInt64 2)]", THEN conjunct1, THEN mp, OF vB']
  obtain bm2 C where
    c1: "WithAttrs_store grow bm1 sm B [(''y'', KindInt64 2)] = Some (bm2, C)"
    and c2: "WithAttrs ?vB [(''y'', KindInt64 2)] = Some (view bm2 sm C)"
    and c3: "untouched bm1 bm2" and c4: "wfHandler bm2 sm C"
    and c5: "groups C = sliceClip (groups B)"
    and c6: "preformattedAttrs C =
        snd (buf (appendAttrs (bufferWrite grow) (attrsState bm1 sm B) [(''y'', KindInt64 2)]))"
    by blast
  let ?vC = "view bm2 sm C"
  have vB: "nOpenGroups ?vB \<le> length (groups ?vB)" by (subst (1 2) vBeq) simp
  have pB: "pendingPrefix ?vB = []" by (subst vBeq) (simp add: pendingPrefix_def)
  have gB: "groupPrefix ?vB = ?P" by (subst vBeq) simp
  have preB: "preformattedAttrs ?vB =
      preformattedAttrs ?vA @ (if preformattedAttrs ?vA \<noteq> [] then '' '' else []) @
      escapedText (?P @ ''x'') @ ''=1''"
    by (subst vBeq) simp
  from c2 have vCeq: "?vC = ?vB\<lparr>preformattedAttrs :=
                 preformattedAttrs ?vB @ '' '' @ escapedText (?P @ ''y'') @ ''=2'',
               groupPrefix := ?P, nOpenGroups := length (groups ?vB)\<rparr>"
    by (simp add: WithAttrs_int [OF vB] pB gB preB)
  have preC: "preformattedAttrs ?vC =
       preformattedAttrs ?vA @ (if preformattedAttrs ?vA \<noteq> [] then '' '' else []) @
       escapedText (?P @ ''x'') @ ''=1 '' @ escapedText (?P @ ''y'') @ ''=2''"
    by (subst vCeq) (simp add: preB)
  have vC: "nOpenGroups ?vC \<le> length (groups ?vC)" by (subst (1 2) vCeq) simp
  have neC: "preformattedAttrs ?vC \<noteq> []" by (simp add: preC)
  have atx: "attrsText ?vC r = '': '' @ preformattedAttrs ?vC" if "Attrs r = []"
    using attrsText_no_attrs [OF vC that] neC by simp
  have ut02: "untouched bm bm2" using b3 c3 by (rule untouched_trans)
  have fA1: "view bm1 sm A = ?vA" using view_untouched [OF wf b3 untouched_refl] by simp
  have fA2: "view bm2 sm A = ?vA" using view_untouched [OF wf ut02 untouched_refl] by simp
  have fB2: "view bm2 sm B = ?vB" using view_untouched [OF b4 c3 untouched_refl] by simp
  have frB: "nxt bm \<le> arr (preformattedAttrs B)"
    unfolding b6 by (rule attrsState_int_fresh [OF wf])
  have frC: "nxt bm1 \<le> arr (preformattedAttrs C)"
    unfolding c6 by (rule attrsState_int_fresh [OF b4])
  have preC': "preformattedAttrs ?vC =
       preformattedAttrs ?vA @ (if preformattedAttrs ?vA \<noteq> [] then '' '' else []) @
       escapedText (groupPrefix A @ pendingPrefix ?vA @ ''x'') @ ''=1 '' @
       escapedText (groupPrefix A @ pendingPrefix ?vA @ ''y'') @ ''=2''"
    using preC by simp
  have preB': "preformattedAttrs ?vB =
       preformattedAttrs ?vA @ (if preformattedAttrs ?vA \<noteq> [] then '' '' else []) @
       escapedText (groupPrefix A @ pendingPrefix ?vA @ ''x'') @ ''=1''"
    using preB by simp
  have ex: "escapedText ''x'' = ''x''" "escapedText ''y'' = ''y''"
    by (simp_all add: escapedText_def needsQuoting_def isSpace_def isControl_def quoteChar_def)
  have plain: "attrsText ?vC r = '': x=1 y=2''"
    if "Attrs r = [] \<and> groupPrefix A = [] \<and> nOpenGroups A = len (groups A) \<and>
        len (preformattedAttrs A) = 0"
  proof -
    from that have "pendingPrefix ?vA = []" by (simp add: pendingPrefix_def lg nA)
    moreover from that have "preformattedAttrs ?vA = []" by (simp add: view_def elems_def)
    ultimately have "preformattedAttrs ?vC = ''x=1 y=2''"
      using that by (simp add: preC' ex)
    with atx that show ?thesis by simp
  qed
  have gC: "groups C = sliceClip (groups A)" by (simp add: c5 b5 sliceClip_def)
  have aB: "arr (groups B) = arr (groups A)" by (simp add: b5 sliceClip_def)
  have aC: "arr (groups C) = arr (groups A)" by (simp add: gC sliceClip_def)
  have vgB: "groups ?vB = groups ?vA" by (simp add: view_def b5)
  have vgC: "groups ?vC = groups ?vA" by (simp add: view_def gC)
  from b1 c1 b3 c3 ut02 fA1 fA2 fB2 frB frC b5 gC aB aC vgB vgC preB' preC' atx plain
  show ?thesis by blast
qed

text \<open>
  On the handler whose buffer has spare capacity and which has no groups: after both
  derivations the array of \<open>A\<close> still holds
  \<^verbatim>\<open>p=0\<close> and its five spare zero bytes, \<open>A\<close> reads \<^verbatim>\<open>p=0\<close>, \<open>B\<close>
  reads \<^verbatim>\<open>p=0 x=1\<close>, \<open>C\<close> reads \<^verbatim>\<open>p=0 x=1 y=2\<close>.
\<close>

theorem WithAttrs_twice_witness:
  "\<exists>bm1 B bm2 C.
     WithAttrs_store doubling spareStore noGroups spareHandler [(''x'', KindInt64 1)] = Some (bm1, B) \<and>
     WithAttrs_store doubling bm1 noGroups B [(''y'', KindInt64 2)] = Some (bm2, C) \<and>
     cells bm2 0 = ''p=0'' @ replicate 5 (CHR 0x00) \<and>
     preformattedAttrs (view bm2 noGroups spareHandler) = ''p=0'' \<and>
     preformattedAttrs (view bm2 noGroups B) = ''p=0 x=1'' \<and>
     preformattedAttrs (view bm2 noGroups C) = ''p=0 x=1 y=2'' \<and>
     attrsText (view bm2 noGroups C)
       \<lparr>Time = zeroTime, Message = ''m'', Level = LevelInfo, PC = 0, Attrs = []\<rparr>
       = '': p=0 x=1 y=2''"
proof -
  let ?r = "\<lparr>Time = zeroTime, Message = ''m'', Level = LevelInfo, PC = 0, Attrs = []\<rparr>"
  have wf: "wfHandler spareStore noGroups spareHandler"
    by (simp add: wfHandler_def wfSlice_def spareStore_def noGroups_def spareHandler_def nilSlice_def)
  have v: "nOpenGroups spareHandler \<le> len (groups spareHandler)"
    by (simp add: spareHandler_def)
  have pA: "preformattedAttrs (view spareStore noGroups spareHandler) = ''p=0''"
    by (simp add: view_def elems_def spareStore_def spareHandler_def)
  have gA: "groupPrefix spareHandler = []"
    "pendingPrefix (view spareStore noGroups spareHandler) = []"
    by (simp_all add: spareHandler_def pendingPrefix_def view_def elems_def nilSlice_def)
  have e: "escapedText ''x'' = ''x''" "escapedText ''y'' = ''y''"
    by (simp_all add: escapedText_def needsQuoting_def isSpace_def isControl_def quoteChar_def)
  have a: "Attrs ?r = []" by simp
  let ?A = spareHandler and ?bm = spareStore and ?sm = noGroups
  from WithAttrs_twice [OF wf v, of doubling ?r]
  obtain bm1 B bm2 C where
    1: "WithAttrs_store doubling ?bm ?sm ?A [(''x'', KindInt64 1)] = Some (bm1, B)"
    and 2: "WithAttrs_store doubling bm1 ?sm B [(''y'', KindInt64 2)] = Some (bm2, C)"
    and u: "untouched ?bm bm2"
    and fA: "view bm2 ?sm ?A = view ?bm ?sm ?A"
    and fB: "view bm2 ?sm B = view bm1 ?sm B"
    and pB0: "preformattedAttrs (view bm1 ?sm B) =
       preformattedAttrs (view ?bm ?sm ?A) @
       (if preformattedAttrs (view ?bm ?sm ?A) \<noteq> [] then '' '' else []) @
       escapedText (groupPrefix ?A @ pendingPrefix (view ?bm ?sm ?A) @ ''x'') @ ''=1''"
    and pC0: "preformattedAttrs (view bm2 ?sm C) =
       preformattedAttrs (view ?bm ?sm ?A) @
       (if preformattedAttrs (view ?bm ?sm ?A) \<noteq> [] then '' '' else []) @
       escapedText (groupPrefix ?A @ pendingPrefix (view ?bm ?sm ?A) @ ''x'') @ ''=1 '' @
       escapedText (groupPrefix ?A @ pendingPrefix (view ?bm ?sm ?A) @ ''y'') @ ''=2''"
    and tC0: "Attrs ?r = [] \<longrightarrow>
        attrsText (view bm2 ?sm C) ?r = '': '' @ preformattedAttrs (view bm2 ?sm C)"
    by blast
  have pB: "preformattedAttrs (view bm1 noGroups B) = ''p=0 x=1''"
    unfolding pB0 pA gA by (simp add: e)
  have pC: "preformattedAttrs (view bm2 noGroups C) = ''p=0 x=1 y=2''"
    unfolding pC0 pA gA by (simp add: e)
  have tC: "attrsText (view bm2 noGroups C) ?r = '': p=0 x=1 y=2''"
    using tC0 a by (simp add: pC)
  from u have c0: "cells bm2 0 = ''p=0'' @ replicate 5 (CHR 0x00)"
    by (simp add: untouched_def spareStore_def)
  have pB2: "preformattedAttrs (view bm2 noGroups B) = ''p=0 x=1''"
    unfolding fB by (rule pB)
  have pA2: "preformattedAttrs (view bm2 noGroups spareHandler) = ''p=0''"
    unfolding fA by (rule pA)
  from 1 2 c0 pA2 pB2 pC tC show ?thesis by blast
qed

text \<open>
  C6 as stated fails where it calls the group list of the child a copy. On the handler
  \<^verbatim>\<open>NewHandler(nil).WithAttrs({p: 0}).WithGroup("g")\<close>, whose group list is in array 0
  of the store of strings, \<^verbatim>\<open>B = A.WithAttrs({x: 1})\<close> has its buffer
  \<^verbatim>\<open>p=0 g.x=1\<close> in a new array, a copy, but its group list is
  the slice of \<open>A\<close> itself: the same array 0, which existed before the derivation.
\<close>

theorem WithAttrs_groups_shared_counterexample:
  "\<exists>bm1 B.
     WithAttrs_store doubling spareStore groupStore groupHandler [(''x'', KindInt64 1)] = Some (bm1, B) \<and>
     elems groupStore (groups groupHandler) = [''g''] \<and>
     arr (groups groupHandler) < nxt groupStore \<and>
     groups B = groups groupHandler \<and>
     arr (groups B) = arr (groups groupHandler) \<and>
     nxt spareStore \<le> arr (preformattedAttrs B) \<and>
     preformattedAttrs (view bm1 groupStore B) = ''p=0 g.x=1''"
proof -
  let ?vA = "view spareStore groupStore groupHandler"
  have wf: "wfHandler spareStore groupStore groupHandler"
    by (simp add: wfHandler_def wfSlice_def spareStore_def groupStore_def groupHandler_def
        spareHandler_def)
  have v: "nOpenGroups groupHandler \<le> len (groups groupHandler)"
    by (simp add: groupHandler_def spareHandler_def)
  have gA: "groups ?vA = [''g'']" "nOpenGroups ?vA = 0" "groupPrefix ?vA = []"
    "preformattedAttrs ?vA = ''p=0''"
    by (simp_all add: view_def elems_def groupStore_def spareStore_def groupHandler_def
        spareHandler_def)
  have vA: "nOpenGroups ?vA \<le> length (groups ?vA)" by (simp add: gA)
  have pp: "pendingPrefix ?vA = ''g.''"
    by (simp add: pendingPrefix_def gA keyComponentSep_def)
  have e: "escapedText ''g.x'' = ''g.x''"
    by (simp add: escapedText_def needsQuoting_def isSpace_def isControl_def quoteChar_def)
  from WithAttrs_store_refines [OF wf, of doubling "[(''x'', KindInt64 1)]", THEN conjunct1,
      THEN mp, OF v]
  obtain bm1 B where
    b1: "WithAttrs_store doubling spareStore groupStore groupHandler [(''x'', KindInt64 1)]
           = Some (bm1, B)"
    and b2: "WithAttrs ?vA [(''x'', KindInt64 1)] = Some (view bm1 groupStore B)"
    and b5: "groups B = sliceClip (groups groupHandler)"
    and b6: "preformattedAttrs B =
        snd (buf (appendAttrs (bufferWrite doubling) (attrsState spareStore groupStore groupHandler)
          [(''x'', KindInt64 1)]))"
    by blast
  have g: "groups B = groups groupHandler"
    by (simp add: b5 sliceClip_def groupHandler_def)
  have fr: "nxt spareStore \<le> arr (preformattedAttrs B)"
    unfolding b6 by (rule attrsState_int_fresh [OF wf])
  from b2 have "view bm1 groupStore B = ?vA\<lparr>preformattedAttrs :=
                 preformattedAttrs ?vA @ (if preformattedAttrs ?vA \<noteq> [] then '' '' else []) @
                 escapedText (groupPrefix ?vA @ pendingPrefix ?vA @ ''x'') @ ''=1'',
               groupPrefix := groupPrefix ?vA @ pendingPrefix ?vA,
               nOpenGroups := length (groups ?vA)\<rparr>"
    by (simp add: WithAttrs_int [OF vA])
  then have "preformattedAttrs (view bm1 groupStore B) =
      preformattedAttrs ?vA @ (if preformattedAttrs ?vA \<noteq> [] then '' '' else []) @
      escapedText (groupPrefix ?vA @ pendingPrefix ?vA @ ''x'') @ ''=1''"
    by simp
  then have pB: "preformattedAttrs (view bm1 groupStore B) = ''p=0 g.x=1''"
    by (simp add: gA pp e)
  have eA: "elems groupStore (groups groupHandler) = [''g'']"
    by (simp add: elems_def groupStore_def groupHandler_def)
  have lt: "arr (groups groupHandler) < nxt groupStore"
    by (simp add: groupStore_def groupHandler_def)
  from b1 eA lt g fr pB show ?thesis by auto
qed

end
